theory Spec2Isabelle
  imports Main
begin

section \<open>JavaScript values\<close>

text \<open>
  The query builders of \<^verbatim>\<open>src/lib/crud.ts\<close> work on untyped JavaScript values
  (\<^verbatim>\<open>WhereConditions\<close> is \<^verbatim>\<open>{[key: string]: any}\<close>). A value is modelled as a
  tree; an object is the list that \<^verbatim>\<open>Object.entries\<close> returns for it, in that order
  (property reads take the first entry of a key). \<open>JOther\<close> is any other object with
  no enumerable property of its own and no \<^verbatim>\<open>length\<close>, such as a \<^verbatim>\<open>Date\<close>: the
  builders can tell it from a plain object only by what a template literal prints for
  it, which is the string it carries. Numbers are the integral ones of magnitude below
  \<open>10\<^sup>2\<^sup>1\<close>, which a template literal prints in plain decimal digits; the builders
  only test a number for being zero and print it.
\<close>

datatype jsval =
    JUndefined
  | JNull
  | JBool bool
  | JNum int
  | JStr string
  | JArr "jsval list"
  | JObj "(string \<times> jsval) list"
  | JOther string

text \<open>
  A thrown value: \<^verbatim>\<open>new Error(msg)\<close> of the library, or a \<^verbatim>\<open>TypeError\<close> the
  engine raises (reading a property of \<^verbatim>\<open>undefined\<close>, calling what is not a
  function); the text of an engine error is the engine's and only indicative here.
\<close>

datatype error = Error string | TypeError string

fun message :: "error \<Rightarrow> string" where
  "message (Error m) = m"
| "message (TypeError m) = m"

text \<open>\<^verbatim>\<open>!v\<close>\<close>

fun falsy :: "jsval \<Rightarrow> bool" where
  "falsy JUndefined = True"
| "falsy JNull = True"
| "falsy (JBool b) = (\<not> b)"
| "falsy (JNum n) = (n = 0)"
| "falsy (JStr s) = (s = [])"
| "falsy (JArr xs) = False"
| "falsy (JObj es) = False"
| "falsy (JOther s) = False"

text \<open>\<^verbatim>\<open>k in obj\<close> and \<^verbatim>\<open>obj.k\<close> on the entries of an object.\<close>

definition hasKey :: "string \<Rightarrow> (string \<times> jsval) list \<Rightarrow> bool" where
  "hasKey k es = (k \<in> set (map fst es))"

definition field :: "(string \<times> jsval) list \<Rightarrow> string \<Rightarrow> jsval" where
  "field es k = (case map_of es k of None \<Rightarrow> JUndefined | Some v \<Rightarrow> v)"

text \<open>\<^verbatim>\<open>v.k\<close> on any value that is not \<^verbatim>\<open>null\<close> or \<^verbatim>\<open>undefined\<close>.\<close>

fun getProp :: "jsval \<Rightarrow> string \<Rightarrow> jsval" where
  "getProp (JObj es) k = field es k"
| "getProp v k = JUndefined"

text \<open>\<^verbatim>\<open>Array.prototype.join\<close> on an array of strings.\<close>

fun join :: "string \<Rightarrow> string list \<Rightarrow> string" where
  "join sep [] = []"
| "join sep [x] = x"
| "join sep (x # y # ys) = x @ sep @ join sep (y # ys)"

text \<open>Decimal digits of a natural number, for printing numbers and array indices.\<close>

definition digit :: "nat \<Rightarrow> char" where
  "digit d = ''0123456789'' ! d"

function decimal :: "nat \<Rightarrow> string" where
  "decimal n = (if n < 10 then [digit n] else decimal (n div 10) @ [digit (n mod 10)])"
  by pat_completeness auto
termination
  by (relation "measure id") auto

declare decimal.simps [simp del]

text \<open>
  \<^verbatim>\<open>`${v}`\<close>: the string a template literal makes of a value (an array prints its
  elements joined by commas, \<^verbatim>\<open>null\<close> and \<^verbatim>\<open>undefined\<close> elements as nothing).
\<close>

fun toStr :: "jsval \<Rightarrow> string" where
  "toStr JUndefined = ''undefined''"
| "toStr JNull = ''null''"
| "toStr (JBool b) = (if b then ''true'' else ''false'')"
| "toStr (JNum n) = (if n < 0 then CHR ''-'' # decimal (nat (- n)) else decimal (nat n))"
| "toStr (JStr s) = s"
| "toStr (JArr xs) = join '','' (map (\<lambda>x. if x = JUndefined \<or> x = JNull then [] else toStr x) xs)"
| "toStr (JObj es) = ''[object Object]''"
| "toStr (JOther s) = s"

text \<open>\<^verbatim>\<open>val.length\<close>; reading it off \<^verbatim>\<open>null\<close> or \<^verbatim>\<open>undefined\<close> throws.\<close>

fun lengthProp :: "jsval \<Rightarrow> error + jsval" where
  "lengthProp JUndefined = Inl (TypeError ''Cannot read properties of undefined (reading length)'')"
| "lengthProp JNull = Inl (TypeError ''Cannot read properties of null (reading length)'')"
| "lengthProp (JArr xs) = Inr (JNum (int (length xs)))"
| "lengthProp (JStr s) = Inr (JNum (int (length s)))"
| "lengthProp (JObj es) = Inr (field es ''length'')"
| "lengthProp (JBool b) = Inr JUndefined"
| "lengthProp (JNum n) = Inr JUndefined"
| "lengthProp (JOther s) = Inr JUndefined"

text \<open>\<^verbatim>\<open>...val\<close> in an argument list: arrays and strings are iterable.\<close>

fun spread :: "jsval \<Rightarrow> error + jsval list" where
  "spread (JArr xs) = Inr xs"
| "spread (JStr s) = Inr (map (\<lambda>c. JStr [c]) s)"
| "spread v = Inl (TypeError ''val is not iterable'')"

text \<open>\<^verbatim>\<open>val.map(() => '?').join(', ')\<close>: only an array has \<^verbatim>\<open>map\<close>.\<close>

fun placeholders :: "jsval \<Rightarrow> error + string" where
  "placeholders (JArr xs) = Inr (join '', '' (map (\<lambda>_. ''?'') xs))"
| "placeholders v = Inl (TypeError ''val.map is not a function'')"

text \<open>\<^verbatim>\<open>val[i]\<close> on a value whose \<^verbatim>\<open>length\<close> was read before.\<close>

fun index :: "jsval \<Rightarrow> nat \<Rightarrow> jsval" where
  "index (JArr xs) i = (if i < length xs then xs ! i else JUndefined)"
| "index (JStr s) i = (if i < length s then JStr [s ! i] else JUndefined)"
| "index (JObj es) i = field es (decimal i)"
| "index v i = JUndefined"

section \<open>The condition compiler (\<^verbatim>\<open>utils._buildWhereClause\<close>)\<close>

text \<open>
  \<^verbatim>\<open>src/lib/crud.ts\<close>, lines 87 to 138 (\<^verbatim>\<open>lib/crud.js\<close> has the same function).
  The source keeps one array \<^verbatim>\<open>params\<close> that every fragment pushes to while the
  clause text is assembled. The model threads that array through: each function takes
  the parameters pushed so far and returns its text with the array after its pushes.
  A \<^verbatim>\<open>throw\<close> is \<^term>\<open>Inl\<close>.

  \<^term>\<open>opFragment\<close> is the \<^verbatim>\<open>switch (op)\<close> of \<^verbatim>\<open>buildCondition\<close>, one
  operator of an operator map.
\<close>

definition opFragment ::
  "string \<Rightarrow> string \<Rightarrow> jsval \<Rightarrow> jsval list \<Rightarrow> error + (string \<times> jsval list)" where
  "opFragment column op val params =
    (if op = ''$eq'' then Inr (column @ '' = ?'', params @ [val])
     else if op = ''$ne'' then Inr (column @ '' != ?'', params @ [val])
     else if op = ''$gt'' then Inr (column @ '' > ?'', params @ [val])
     else if op = ''$gte'' then Inr (column @ '' >= ?'', params @ [val])
     else if op = ''$lt'' then Inr (column @ '' < ?'', params @ [val])
     else if op = ''$lte'' then Inr (column @ '' <= ?'', params @ [val])
     else if op = ''$in'' then
       (case lengthProp val of
          Inl e \<Rightarrow> Inl e
        | Inr len \<Rightarrow>
            if falsy len then Inr (''FALSE'', params)
            else (case spread val of
                Inl e \<Rightarrow> Inl e
              | Inr items \<Rightarrow>
                  (case placeholders val of
                     Inl e \<Rightarrow> Inl e
                   | Inr qs \<Rightarrow> Inr (column @ '' IN ('' @ qs @ '')'', params @ items))))
     else if op = ''$notIn'' \<or> op = ''$nIn'' \<or> op = ''$nin'' then
       (case lengthProp val of
          Inl e \<Rightarrow> Inl e
        | Inr len \<Rightarrow>
            if falsy len then Inr (''TRUE'', params)
            else (case spread val of
                Inl e \<Rightarrow> Inl e
              | Inr items \<Rightarrow>
                  (case placeholders val of
                     Inl e \<Rightarrow> Inl e
                   | Inr qs \<Rightarrow> Inr (column @ '' NOT IN ('' @ qs @ '')'', params @ items))))
     else if op = ''$like'' then Inr (column @ '' LIKE ?'', params @ [val])
     else if op = ''$between'' then
       (case lengthProp val of
          Inl e \<Rightarrow> Inl e
        | Inr len \<Rightarrow>
            if len \<noteq> JNum 2 then Inl (Error ''$between requires [min, max]'')
            else Inr (column @ '' BETWEEN ? AND ?'', params @ [index val 0, index val 1]))
     else Inl (Error (''Unsupported operator: '' @ op)))"

text \<open>\<^verbatim>\<open>Object.entries(value).map(([op, val]) => ...)\<close>: the operators of one column, in order.\<close>

fun opFragments ::
  "string \<Rightarrow> (string \<times> jsval) list \<Rightarrow> jsval list \<Rightarrow> error + (string list \<times> jsval list)" where
  "opFragments column [] params = Inr ([], params)"
| "opFragments column ((op, val) # rest) params =
    (case opFragment column op val params of
       Inl e \<Rightarrow> Inl e
     | Inr (s, params') \<Rightarrow>
         (case opFragments column rest params' of
            Inl e \<Rightarrow> Inl e
          | Inr (ss, params'') \<Rightarrow> Inr (s # ss, params'')))"

text \<open>
  \<^verbatim>\<open>buildCondition\<close>: every object that is not an array goes to the operator-map
  branch; with no entry to map over (\<open>JOther\<close>, or \<^verbatim>\<open>{}\<close>) the fragment is the empty
  string and nothing is pushed.
\<close>

fun buildCondition ::
  "string \<Rightarrow> jsval \<Rightarrow> jsval list \<Rightarrow> error + (string \<times> jsval list)" where
  "buildCondition key JNull params = Inr (key @ '' IS NULL'', params)"
| "buildCondition key (JObj ops) params =
    (case opFragments key ops params of
       Inl e \<Rightarrow> Inl e
     | Inr (ss, params') \<Rightarrow> Inr (join '' AND '' ss, params'))"
| "buildCondition key (JOther s) params = Inr ([], params)"
| "buildCondition key value params = Inr (key @ '' = ?'', params @ [value])"

text \<open>\<^verbatim>\<open>Object.entries(cond).map(([k, v]) => buildCondition(k, v))\<close>\<close>

fun buildConditions ::
  "(string \<times> jsval) list \<Rightarrow> jsval list \<Rightarrow> error + (string list \<times> jsval list)" where
  "buildConditions [] params = Inr ([], params)"
| "buildConditions ((k, v) # rest) params =
    (case buildCondition k v params of
       Inl e \<Rightarrow> Inl e
     | Inr (s, params') \<Rightarrow>
         (case buildConditions rest params' of
            Inl e \<Rightarrow> Inl e
          | Inr (ss, params'') \<Rightarrow> Inr (s # ss, params'')))"

lemma size_map_of:
  "map_of es k = Some v \<Longrightarrow> size v < Suc (size_list (size_prod (\<lambda>_. 0) size) es)"
  by (induction es) (auto split: if_splits)

lemma size_field: "size (field es k) < Suc (size_list (size_prod (\<lambda>_. 0) size) es)"
  using size_map_of [of es k] by (auto simp: field_def split: option.splits)

text \<open>
  \<^verbatim>\<open>walk\<close>; \<^term>\<open>walkAll\<close> is \<^verbatim>\<open>cond.map(walk)\<close>, left to right.
\<close>

function walk :: "jsval \<Rightarrow> jsval list \<Rightarrow> error + (string \<times> jsval list)"
  and walkAll :: "jsval list \<Rightarrow> jsval list \<Rightarrow> error + (string list \<times> jsval list)" where
  "walk JUndefined params = Inr ([], params)"
| "walk JNull params = Inr ([], params)"
| "walk (JBool b) params = Inr ([], params)"
| "walk (JNum n) params = Inr ([], params)"
| "walk (JStr s) params = Inr ([], params)"
| "walk (JArr xs) params =
    (case walkAll xs params of
       Inl e \<Rightarrow> Inl e
     | Inr (ss, params') \<Rightarrow> Inr (join '' AND '' ss, params'))"
| "walk (JObj es) params =
    (if hasKey ''$and'' es then
       (case field es ''$and'' of
          JArr xs \<Rightarrow>
            (case walkAll xs params of
               Inl e \<Rightarrow> Inl e
             | Inr (ss, params') \<Rightarrow> Inr (''('' @ join '' AND '' ss @ '')'', params'))
        | _ \<Rightarrow> Inl (TypeError ''cond.$and.map is not a function''))
     else if hasKey ''$or'' es then
       (case field es ''$or'' of
          JArr xs \<Rightarrow>
            (case walkAll xs params of
               Inl e \<Rightarrow> Inl e
             | Inr (ss, params') \<Rightarrow> Inr (''('' @ join '' OR '' ss @ '')'', params'))
        | _ \<Rightarrow> Inl (TypeError ''cond.$or.map is not a function''))
     else if hasKey ''$not'' es then
       (case walk (field es ''$not'') params of
          Inl e \<Rightarrow> Inl e
        | Inr (s, params') \<Rightarrow> Inr (''(NOT '' @ s @ '')'', params'))
     else
       (case buildConditions es params of
          Inl e \<Rightarrow> Inl e
        | Inr (ss, params') \<Rightarrow> Inr (join '' AND '' ss, params')))"
| "walk (JOther s) params = Inr ([], params)"
| "walkAll [] params = Inr ([], params)"
| "walkAll (x # xs) params =
    (case walk x params of
       Inl e \<Rightarrow> Inl e
     | Inr (s, params') \<Rightarrow>
         (case walkAll xs params' of
            Inl e \<Rightarrow> Inl e
          | Inr (ss, params'') \<Rightarrow> Inr (s # ss, params'')))"
  by pat_completeness auto
termination
proof (relation "measure (\<lambda>a. case a of Inl (v, _) \<Rightarrow> size v | Inr (vs, _) \<Rightarrow> size_list size vs)",
    goal_cases)
  case (3 es params xs)
  then show ?case using size_field [of es "''$and''"] by simp
next
  case (4 es params xs)
  then show ?case using size_field [of es "''$or''"] by simp
next
  case (5 es params)
  then show ?case using size_field [of es "''$not''"] by simp
qed auto

definition buildWhereClause :: "jsval \<Rightarrow> error + (string \<times> jsval list)" where
  "buildWhereClause conditions = walk conditions []"

section \<open>The query builders\<close>

text \<open>
  \<^verbatim>\<open>src/lib/crud.ts\<close>: \<^verbatim>\<open>prepareUpdateParams\<close> (lines 64 to 85),
  \<^verbatim>\<open>_buildUpdateQuery\<close> (lines 182 to 200) and \<^verbatim>\<open>_buildDeleteQuery\<close> (lines 202 to
  222); a leading underscore is dropped from a name.
\<close>

text \<open>\<^verbatim>\<open>typeof v === 'object'\<close>\<close>

fun isObject :: "jsval \<Rightarrow> bool" where
  "isObject JNull = True"
| "isObject (JArr xs) = True"
| "isObject (JObj es) = True"
| "isObject (JOther s) = True"
| "isObject v = False"

text \<open>\<^verbatim>\<open>Object.entries(v)\<close>: an array or a string lists its indices.\<close>

fun indexed :: "nat \<Rightarrow> jsval list \<Rightarrow> (string \<times> jsval) list" where
  "indexed i [] = []"
| "indexed i (x # xs) = (decimal i, x) # indexed (Suc i) xs"

fun objectEntries :: "jsval \<Rightarrow> error + (string \<times> jsval) list" where
  "objectEntries JUndefined = Inl (TypeError ''Cannot convert undefined or null to object'')"
| "objectEntries JNull = Inl (TypeError ''Cannot convert undefined or null to object'')"
| "objectEntries (JObj es) = Inr es"
| "objectEntries (JArr xs) = Inr (indexed 0 xs)"
| "objectEntries (JStr s) = Inr (indexed 0 (map (\<lambda>c. JStr [c]) s))"
| "objectEntries (JBool b) = Inr []"
| "objectEntries (JNum n) = Inr []"
| "objectEntries (JOther s) = Inr []"

text \<open>
  The loop of \<^verbatim>\<open>prepareUpdateParams\<close> over the entries of \<^verbatim>\<open>data\<close>, with the two
  arrays it pushes to.
\<close>

fun prepareFields ::
  "(string \<times> jsval) list \<Rightarrow> string list \<Rightarrow> jsval list \<Rightarrow> string list \<times> jsval list" where
  "prepareFields [] setFields params = (setFields, params)"
| "prepareFields ((key, value) # rest) setFields params =
    (if value = JUndefined then prepareFields rest setFields params
     else if \<not> falsy value \<and> isObject value \<and> \<not> falsy (getProp value ''__raw'') then
       prepareFields rest (setFields @ [key @ '' = '' @ toStr (getProp value ''value'')]) params
     else if value = JNull then prepareFields rest (setFields @ [key @ '' = NULL'']) params
     else prepareFields rest (setFields @ [key @ '' = ?'']) (params @ [value]))"

definition prepareUpdateParams :: "jsval \<Rightarrow> error + (string list \<times> jsval list)" where
  "prepareUpdateParams data =
    (case objectEntries data of
       Inl e \<Rightarrow> Inl e
     | Inr es \<Rightarrow> Inr (prepareFields es [] []))"

text \<open>
  A query descriptor (\<^verbatim>\<open>UpdateOptions\<close>, \<^verbatim>\<open>DeleteOptions\<close>) is an object, given by
  its entries; a key it lacks reads as \<^verbatim>\<open>undefined\<close>.
\<close>

definition buildUpdateQuery :: "(string \<times> jsval) list \<Rightarrow> error + (string \<times> jsval list)" where
  "buildUpdateQuery options =
    (let table = field options ''table'';
         data = field options ''data'';
         whereCond = field options ''where''
     in case prepareUpdateParams data of
          Inl e \<Rightarrow> Inl e
        | Inr (setFields, params) \<Rightarrow>
            if length setFields = 0 then Inl (Error ''No valid fields to update'')
            else
              let query = ''UPDATE '' @ toStr table @ '' SET '' @ join '', '' setFields in
              if falsy whereCond then Inr (query, params)
              else (case buildWhereClause whereCond of
                  Inl e \<Rightarrow> Inl e
                | Inr (clause, whereParams) \<Rightarrow>
                    if clause \<noteq> [] then Inr (query @ '' WHERE '' @ clause, params @ whereParams)
                    else Inr (query, params)))"

definition buildDeleteQuery :: "(string \<times> jsval) list \<Rightarrow> error + (string \<times> jsval list)" where
  "buildDeleteQuery options =
    (let table = field options ''table'';
         whereCond = field options ''where''
     in if falsy table then Inl (Error ''Table name is required for delete'')
        else
          let query = ''DELETE FROM '' @ toStr table in
          if falsy whereCond then Inl (Error ''DELETE requires a WHERE clause for safety'')
          else (case buildWhereClause whereCond of
              Inl e \<Rightarrow> Inl e
            | Inr (clause, whereParams) \<Rightarrow>
                if clause \<noteq> [] then Inr (query @ '' WHERE '' @ clause, whereParams)
                else Inl (Error ''DELETE requires a valid WHERE clause for safety'')))"

section \<open>The pool, the driver and the log\<close>

text \<open>
  What the library does to the outside is recorded in a trace: the pools it creates,
  the statements it sends, the connections it reserves and what it asks of them. A
  granted connection is a handle, numbered in the order of granting;
  \<^term>\<open>GetConnection\<close> records the handle, or \<^term>\<open>None\<close> when the pool refused.
\<close>

datatype event =
    CreatePool string
  | PoolQuery string jsval "jsval list"
  | GetConnection string "nat option"
  | BeginTransaction nat
  | ConnQuery nat jsval "jsval list"
  | CommitTx nat
  | RollbackTx nat
  | Release nat

text \<open>What the driver answers to one operation: a value, or a failure.\<close>

datatype outcome = Ok jsval | Fail error

datatype level = Info | Warn | Err

datatype logarg = Txt string | Thrown error | Json "jsval list"

text \<open>The fields of a \<^verbatim>\<open>TransactionCRUD\<close> object.\<close>

record session =
  connection :: "nat option"
  transactionActive :: bool
  debug :: bool

text \<open>
  The process-wide state: the default configuration and the pool map of the
  connection manager (the keys of the pools, in the order of creation), the
  \<^verbatim>\<open>TransactionCRUD\<close> objects by reference, the slot of the transaction manager, the
  next connection handle, the trace, the lines given to the logger, and the answers
  the driver will give to the operations to come (an operation past the end of the
  script succeeds with \<^verbatim>\<open>undefined\<close>). Quantifying over the script covers every
  behaviour of the database.

  Timing is left out: \<^verbatim>\<open>Date.now\<close>, the slow-query warning and the performance
  monitor write to the logger and the monitor only.
\<close>

record world =
  defaultConfig :: jsval
  pools :: "string list"
  sessions :: "nat \<Rightarrow> session"
  transactionInstance :: "nat option"
  nextConn :: nat
  trace :: "event list"
  logged :: "(level \<times> logarg list) list"
  script :: "outcome list"

definition logger :: "level \<Rightarrow> logarg list \<Rightarrow> world \<Rightarrow> world" where
  "logger l args w = w\<lparr>logged := logged w @ [(l, args)]\<rparr>"

text \<open>The answer to the next operation.\<close>

definition nextAnswer :: "outcome list \<Rightarrow> outcome" where
  "nextAnswer answers = (case answers of [] \<Rightarrow> Ok JUndefined | a # rest \<Rightarrow> a)"

text \<open>One operation of the driver: it is recorded, and answered from the script.\<close>

definition driver :: "event \<Rightarrow> world \<Rightarrow> outcome \<times> world" where
  "driver ev w = (nextAnswer (script w), w\<lparr>trace := trace w @ [ev], script := tl (script w)\<rparr>)"

text \<open>\<^verbatim>\<open>pool.getConnection()\<close>: a fresh handle, or the driver's failure.\<close>

definition getConnection :: "string \<Rightarrow> world \<Rightarrow> (error + nat) \<times> world" where
  "getConnection pool w =
    (case nextAnswer (script w) of
       Fail e \<Rightarrow>
         (Inl e, w\<lparr>trace := trace w @ [GetConnection pool None], script := tl (script w)\<rparr>)
     | Ok granted \<Rightarrow>
         (Inr (nextConn w),
          w\<lparr>trace := trace w @ [GetConnection pool (Some (nextConn w))],
            nextConn := Suc (nextConn w), script := tl (script w)\<rparr>))"

text \<open>\<^verbatim>\<open>connection.release()\<close>\<close>

definition release :: "nat \<Rightarrow> world \<Rightarrow> world" where
  "release c w = w\<lparr>trace := trace w @ [Release c]\<rparr>"

subsection \<open>\<^verbatim>\<open>connectionManager\<close>\<close>

text \<open>\<^verbatim>\<open>src/lib/connectionManager.ts\<close>: \<^verbatim>\<open>getPoolKey\<close> (lines 15 to 17) and \<^verbatim>\<open>getPool\<close> (lines 49 to 80).\<close>

definition getPoolKey :: "jsval \<Rightarrow> string" where
  "getPoolKey config =
    toStr (getProp config ''host'') @ '':''
    @ toStr (if falsy (getProp config ''port'') then JNum 3306 else getProp config ''port'') @ '':''
    @ toStr (getProp config ''user'') @ '':''
    @ toStr (getProp config ''database'')"

definition getPool :: "jsval \<Rightarrow> world \<Rightarrow> (error + string) \<times> world" where
  "getPool dbConfig w =
    (let conf = (if falsy dbConfig then defaultConfig w else dbConfig) in
     if falsy conf \<or> falsy (getProp conf ''database'') then
       (Inl (Error ''Database configuration missing. Call connectionManager.init() first or provide dbConfig''), w)
     else
       let key = getPoolKey conf in
       if key \<in> set (pools w) then (Inr key, w)
       else
         (case driver (CreatePool key) (logger Info [Txt (''Creating new connection pool for '' @ key)] w) of
            (Ok pool, w') \<Rightarrow> (Inr key, w'\<lparr>pools := pools w' @ [key]\<rparr>)
          | (Fail e, w') \<Rightarrow>
              (Inl e, logger Err [Txt ''Failed to create connection pool:'', Thrown e] w')))"

subsection \<open>\<^verbatim>\<open>utils.executeQuery\<close> and the entry points of \<^verbatim>\<open>crud.ts\<close>\<close>

text \<open>
  \<^verbatim>\<open>src/lib/crud.ts\<close>: \<^verbatim>\<open>executeQuery\<close> (lines 29 to 48), \<^verbatim>\<open>find\<close> and
  \<^verbatim>\<open>findCount\<close> (lines 226 to 235), \<^verbatim>\<open>buildAndExecuteUpdateQuery\<close> and
  \<^verbatim>\<open>buildAndExecuteDeleteQuery\<close> (lines 456 to 466). A builder that throws does so
  before \<^verbatim>\<open>executeQuery\<close> is called.
\<close>

definition executeQuery ::
  "jsval \<Rightarrow> jsval list \<Rightarrow> jsval \<Rightarrow> string \<Rightarrow> world \<Rightarrow> (error + jsval) \<times> world" where
  "executeQuery query params dbConfig operation w =
    (case (case getPool dbConfig w of
             (Inl e, w1) \<Rightarrow> (Inl e, w1)
           | (Inr pool, w1) \<Rightarrow>
               (case driver (PoolQuery pool query params) w1 of
                  (Fail e, w2) \<Rightarrow> (Inl e, w2)
                | (Ok results, w2) \<Rightarrow> (Inr results, w2))) of
       (Inr results, w') \<Rightarrow> (Inr results, w')
     | (Inl e, w') \<Rightarrow>
         (Inl e,
          (if params \<noteq> [] then logger Err [Txt ''Parameters:'', Json params] else id)
            (logger Err [Txt (''Query: '' @ toStr query)]
              (logger Err [Txt (operation @ '' Error: '' @ message e)] w'))))"

text \<open>
  \<^verbatim>\<open>export const find\<close> (\<open>find_rows\<close> here: \<open>find\<close> is a function on lists in HOL)
  and \<^verbatim>\<open>findCount\<close>.
\<close>

definition find_rows :: "jsval \<Rightarrow> jsval list \<Rightarrow> jsval \<Rightarrow> world \<Rightarrow> (error + jsval) \<times> world" where
  "find_rows query params dbConfig w =
    (if falsy query then (Inr (JArr []), w)
     else executeQuery query params dbConfig ''find'' w)"

definition findCount :: "jsval \<Rightarrow> jsval list \<Rightarrow> jsval \<Rightarrow> world \<Rightarrow> (error + jsval) \<times> world" where
  "findCount query params dbConfig w =
    (if falsy query then (Inr (JNum 0), w)
     else (case executeQuery query params dbConfig ''findCount'' w of
         (Inl e, w') \<Rightarrow> (Inl e, w')
       | (Inr results, w') \<Rightarrow>
           (Inr (if \<not> falsy results \<and> \<not> falsy (index results 0)
                 then getProp (index results 0) ''count'' else JNum 0), w')))"

text \<open>\<^verbatim>\<open>result.affectedRows\<close> of what the driver answered.\<close>

definition affectedRows :: "jsval \<Rightarrow> error + jsval" where
  "affectedRows result =
    (if result = JUndefined \<or> result = JNull
     then Inl (TypeError ''Cannot read properties of undefined (reading affectedRows)'')
     else Inr (getProp result ''affectedRows''))"

definition buildAndExecuteUpdateQuery ::
  "(string \<times> jsval) list \<Rightarrow> jsval \<Rightarrow> world \<Rightarrow> (error + jsval) \<times> world" where
  "buildAndExecuteUpdateQuery options dbConfig w =
    (case buildUpdateQuery options of
       Inl e \<Rightarrow> (Inl e, w)
     | Inr (query, params) \<Rightarrow>
         (case executeQuery (JStr query) params dbConfig ''buildAndExecuteUpdateQuery'' w of
            (Inl e, w') \<Rightarrow> (Inl e, w')
          | (Inr result, w') \<Rightarrow> (affectedRows result, w')))"

definition buildAndExecuteDeleteQuery ::
  "(string \<times> jsval) list \<Rightarrow> jsval \<Rightarrow> world \<Rightarrow> (error + jsval) \<times> world" where
  "buildAndExecuteDeleteQuery options dbConfig w =
    (case buildDeleteQuery options of
       Inl e \<Rightarrow> (Inl e, w)
     | Inr (query, params) \<Rightarrow>
         (case executeQuery (JStr query) params dbConfig ''buildAndExecuteDeleteQuery'' w of
            (Inl e, w') \<Rightarrow> (Inl e, w')
          | (Inr result, w') \<Rightarrow> (affectedRows result, w')))"

section \<open>The transaction session (\<^verbatim>\<open>TransactionCRUD\<close>)\<close>

text \<open>
  The class \<^verbatim>\<open>TransactionCRUD\<close>: \<^verbatim>\<open>init\<close> (lines 16 to 35 of its file),
  \<^verbatim>\<open>executeQuery\<close> (40 to 61), \<^verbatim>\<open>commit\<close> (66 to 82), \<^verbatim>\<open>rollback\<close> (87 to 99)
  and \<^verbatim>\<open>_cleanup\<close> (101 to 107).
  A session is an object that the registry and its callers share by reference, so its
  fields live in the world under its reference \<open>this\<close>. The constructor gives it no
  connection and no active transaction. The methods of the class carry the prefix
  \<open>tx_\<close>, since \<^verbatim>\<open>executeQuery\<close> is also a function of \<^verbatim>\<open>crud.ts\<close>.
\<close>

definition newSession :: session where
  "newSession = \<lparr>connection = None, transactionActive = False, debug = False\<rparr>"

definition setConnection :: "nat \<Rightarrow> nat option \<Rightarrow> world \<Rightarrow> world" where
  "setConnection this c w = w\<lparr>sessions := (sessions w)(this := (sessions w this)\<lparr>connection := c\<rparr>)\<rparr>"

definition setTransactionActive :: "nat \<Rightarrow> bool \<Rightarrow> world \<Rightarrow> world" where
  "setTransactionActive this b w =
     w\<lparr>sessions := (sessions w)(this := (sessions w this)\<lparr>transactionActive := b\<rparr>)\<rparr>"

text \<open>\<^verbatim>\<open>_cleanup\<close>\<close>

definition tx_cleanup :: "nat \<Rightarrow> world \<Rightarrow> world" where
  "tx_cleanup this w =
    setTransactionActive this False
      (case connection (sessions w this) of
         Some c \<Rightarrow> setConnection this None (release c w)
       | None \<Rightarrow> w)"

text \<open>\<^verbatim>\<open>init\<close>: the \<^verbatim>\<open>try\<close> block first, then what \<^verbatim>\<open>catch\<close> does with its failure.\<close>

definition tx_init :: "nat \<Rightarrow> jsval \<Rightarrow> world \<Rightarrow> (error + nat) \<times> world" where
  "tx_init this dbConfig w =
    (case (case getPool dbConfig w of
             (Inl e, w1) \<Rightarrow> (Inl e, w1)
           | (Inr pool, w1) \<Rightarrow>
               (case getConnection pool w1 of
                  (Inl e, w2) \<Rightarrow> (Inl e, w2)
                | (Inr c, w2) \<Rightarrow>
                    (case driver (BeginTransaction c) (setConnection this (Some c) w2) of
                       (Fail e, w3) \<Rightarrow> (Inl e, w3)
                     | (Ok u, w3) \<Rightarrow>
                         (Inr c,
                          logger Info [Txt ''Transaction initialized successfully'']
                            (setTransactionActive this True w3))))) of
       (Inr c, w') \<Rightarrow> (Inr c, w')
     | (Inl e, w') \<Rightarrow>
         (Inl e,
          (let w'' = logger Err [Txt ''Failed to initialize transaction:'', Thrown e] w' in
           case connection (sessions w'' this) of
             Some c \<Rightarrow> setConnection this None (release c w'')
           | None \<Rightarrow> w'')))"

text \<open>\<^verbatim>\<open>executeQuery\<close> of the session.\<close>

definition tx_executeQuery ::
  "nat \<Rightarrow> jsval \<Rightarrow> jsval list \<Rightarrow> string \<Rightarrow> world \<Rightarrow> (error + jsval) \<times> world" where
  "tx_executeQuery this query params operation w =
    (case connection (sessions w this) of
       None \<Rightarrow> (Inl (Error ''No active transaction. Call init() first.''), w)
     | Some c \<Rightarrow>
         if \<not> transactionActive (sessions w this)
         then (Inl (Error ''No active transaction. Call init() first.''), w)
         else (case driver (ConnQuery c query params) w of
             (Ok results, w') \<Rightarrow> (Inr results, w')
           | (Fail e, w') \<Rightarrow>
               (Inl e,
                logger Err [Txt (''Query: '' @ toStr query)]
                  (logger Err [Txt (operation @ '' Failed: '' @ message e)] w'))))"

text \<open>\<^verbatim>\<open>rollback\<close>: it never throws.\<close>

definition tx_rollback :: "nat \<Rightarrow> world \<Rightarrow> (error + unit) \<times> world" where
  "tx_rollback this w =
    (case connection (sessions w this) of
       None \<Rightarrow> (Inr (), w)
     | Some c \<Rightarrow>
         (case driver (RollbackTx c) w of
            (Ok u, w') \<Rightarrow>
              (Inr (), tx_cleanup this (logger Info [Txt ''Transaction rolled back''] w'))
          | (Fail e, w') \<Rightarrow>
              (Inr (), tx_cleanup this (logger Err [Txt ''Rollback failed:'', Thrown e] w'))))"

text \<open>\<^verbatim>\<open>commit\<close>: \<^verbatim>\<open>finally\<close> runs \<^verbatim>\<open>_cleanup\<close> after either branch.\<close>

definition tx_commit :: "nat \<Rightarrow> world \<Rightarrow> (error + unit) \<times> world" where
  "tx_commit this w =
    (case connection (sessions w this) of
       None \<Rightarrow> (Inl (Error ''No active transaction to commit''), w)
     | Some c \<Rightarrow>
         if \<not> transactionActive (sessions w this)
         then (Inl (Error ''No active transaction to commit''), w)
         else (case driver (CommitTx c) w of
             (Ok u, w') \<Rightarrow>
               (Inr (), tx_cleanup this (logger Info [Txt ''Transaction committed''] w'))
           | (Fail e, w') \<Rightarrow>
               (case tx_rollback this
                       (logger Err [Txt ''Commit failed, rolling back...'', Thrown e] w') of
                  (Inr u, w'') \<Rightarrow> (Inl e, tx_cleanup this w'')
                | (Inl e', w'') \<Rightarrow> (Inl e', tx_cleanup this w''))))"

section \<open>The transaction registry (\<^verbatim>\<open>transactionManager\<close>)\<close>

text \<open>
  \<^verbatim>\<open>src/lib/transactionManager.ts\<close>: the slot \<^verbatim>\<open>transactionInstance\<close> holds a
  reference to a session or \<^verbatim>\<open>null\<close>.
\<close>

definition setInstance :: "nat \<Rightarrow> world \<Rightarrow> world" where
  "setInstance instance w = w\<lparr>transactionInstance := Some instance\<rparr>"

definition getInstance :: "world \<Rightarrow> nat option" where
  "getInstance w = transactionInstance w"

definition clearInstance :: "world \<Rightarrow> world" where
  "clearInstance w = w\<lparr>transactionInstance := None\<rparr>"

definition hasActiveTransaction :: "world \<Rightarrow> bool" where
  "hasActiveTransaction w =
    (case transactionInstance w of
       None \<Rightarrow> False
     | Some instance \<Rightarrow> transactionActive (sessions w instance))"

text \<open>
  A caller's use of one session: a list of calls, each awaited before the next; what a
  call returns or throws is the caller's to handle and does not stop the list.
\<close>

datatype call = Init jsval | Execute jsval "jsval list" | Commit | Rollback

fun tx_call :: "nat \<Rightarrow> call \<Rightarrow> world \<Rightarrow> world" where
  "tx_call this (Init dbConfig) w = snd (tx_init this dbConfig w)"
| "tx_call this (Execute query params) w = snd (tx_executeQuery this query params ''TRANS_QUERY'' w)"
| "tx_call this Commit w = snd (tx_commit this w)"
| "tx_call this Rollback w = snd (tx_rollback this w)"

fun tx_calls :: "nat \<Rightarrow> call list \<Rightarrow> world \<Rightarrow> world" where
  "tx_calls this [] w = w"
| "tx_calls this (c # cs) w = tx_calls this cs (tx_call this c w)"

section \<open>Notions for stating the properties\<close>

subsection \<open>Condition trees and their comparison leaves\<close>

text \<open>
  The notions the properties of the condition compiler are stated with. A comparison
  leaf is one comparison of a column with an operand: a plain value under a column
  (\<^verbatim>\<open>{a: 1}\<close>), or one of the operators \<^verbatim>\<open>$eq $ne $gt $gte $lt $lte $like\<close> in the
  operator map of a column. \<^verbatim>\<open>null\<close> under a column is an \<^verbatim>\<open>IS NULL\<close> leaf and
  compares with nothing. A \<^verbatim>\<open>Date\<close> under a column is a plain value and so a
  comparison leaf.
\<close>

definition comparisonOps :: "string list" where
  "comparisonOps = [''$eq'', ''$ne'', ''$gt'', ''$gte'', ''$lt'', ''$lte'', ''$like'']"

definition combinators :: "string list" where
  "combinators = [''$and'', ''$or'', ''$not'']"

text \<open>
  The operands of the comparison leaves, in depth-first, left-to-right order of the
  tree: the children of an array, of \<^verbatim>\<open>$and\<close> and of \<^verbatim>\<open>$or\<close> in their order, the
  sub-tree of \<^verbatim>\<open>$not\<close>, the columns of an object in the order of its keys, the
  operators of a column in the order of its operator map.
\<close>

fun columnLeaves :: "jsval \<Rightarrow> jsval list" where
  "columnLeaves JNull = []"
| "columnLeaves (JObj ops) = map snd ops"
| "columnLeaves v = [v]"

fun leaves :: "jsval \<Rightarrow> jsval list"
  and leavesAll :: "jsval list \<Rightarrow> jsval list"
  and entryLeaves :: "(string \<times> jsval) list \<Rightarrow> jsval list" where
  "leaves (JArr cs) = leavesAll cs"
| "leaves (JObj es) = entryLeaves es"
| "leaves v = []"
| "leavesAll [] = []"
| "leavesAll (c # cs) = leaves c @ leavesAll cs"
| "entryLeaves [] = []"
| "entryLeaves ((k, v) # es) =
    (if k = ''$and'' \<or> k = ''$or'' then (case v of JArr cs \<Rightarrow> leavesAll cs | _ \<Rightarrow> [])
     else if k = ''$not'' then leaves v
     else columnLeaves v) @ entryLeaves es"

text \<open>
  The condition trees the property of placeholders and parameters is stated of.
  By the design of the compiler, which copies a column name into the clause as it is,
  the column names are free of \<^verbatim>\<open>?\<close>. The operators of a column are comparison
  operators, and \<^verbatim>\<open>$and\<close> and \<^verbatim>\<open>$or\<close> stand over a list (anything else throws and
  there is no clause). An array is an implicit AND list and a primitive is the empty
  tree.

  Two kinds of tree are left out, and nothing is stated of them here: an object that
  has a key beside \<^verbatim>\<open>$and\<close>, \<^verbatim>\<open>$or\<close> or \<^verbatim>\<open>$not\<close>, and a column whose plain value
  is an object such as a \<^verbatim>\<open>Date\<close>. What the code does with them is shown by
  \<open>sibling_keys_dropped\<close> and \<open>object_operand_dropped\<close> below; the first of them is a
  defect of the code against its own documentation.
\<close>

definition columnOk :: "string \<times> jsval \<Rightarrow> bool" where
  "columnOk e = (case e of (k, v) \<Rightarrow>
     k \<notin> set combinators \<and> CHR ''?'' \<notin> set k \<and>
     (case v of
        JObj ops \<Rightarrow> list_all (\<lambda>(op, val). op \<in> set comparisonOps) ops
      | JOther s \<Rightarrow> False
      | _ \<Rightarrow> True))"

fun condTree :: "jsval \<Rightarrow> bool" and condTrees :: "jsval list \<Rightarrow> bool" where
  "condTree (JArr cs) = condTrees cs"
| "condTree (JObj es) =
    (if list_ex (\<lambda>(k, v). k \<in> set combinators) es then
       (case es of
          [(k, v)] \<Rightarrow>
            if k = ''$not'' then condTree v
            else (case v of JArr cs \<Rightarrow> condTrees cs | _ \<Rightarrow> False)
        | _ \<Rightarrow> False)
     else list_all columnOk es)"
| "condTree v = True"
| "condTrees [] = True"
| "condTrees (c # cs) = (condTree c \<and> condTrees cs)"

text \<open>The placeholders of a clause: to the driver every \<^verbatim>\<open>?\<close> of the text is one.\<close>

definition placeholderCount :: "string \<Rightarrow> nat" where
  "placeholderCount s = length (filter (\<lambda>c. c = CHR ''?'') s)"

text \<open>
  Positional binding, as the driver does it: the i-th \<^verbatim>\<open>?\<close> of the text takes the
  i-th value, written as a literal; a value is not scanned again.
\<close>

fun bind :: "string \<Rightarrow> string list \<Rightarrow> string" where
  "bind [] vs = []"
| "bind (c # s) vs =
    (if c = CHR ''?'' then
       (case vs of [] \<Rightarrow> c # bind s [] | v # vs' \<Rightarrow> v @ bind s vs')
     else c # bind s vs)"

text \<open>
  The predicate a condition tree stands for, written out with the operands in place
  (\<open>lit\<close> writes an operand as a literal): what the compiled clause has to become once
  its parameters are bound.
\<close>

definition sqlOperator :: "string \<Rightarrow> string" where
  "sqlOperator op =
    (if op = ''$eq'' then ''=''
     else if op = ''$ne'' then ''!=''
     else if op = ''$gt'' then ''>''
     else if op = ''$gte'' then ''>=''
     else if op = ''$lt'' then ''<''
     else if op = ''$lte'' then ''<=''
     else ''LIKE'')"

definition inlineColumn :: "(jsval \<Rightarrow> string) \<Rightarrow> string \<times> jsval \<Rightarrow> string" where
  "inlineColumn lit e = (case e of (k, v) \<Rightarrow>
     (case v of
        JNull \<Rightarrow> k @ '' IS NULL''
      | JObj ops \<Rightarrow> join '' AND '' (map (\<lambda>(op, val). k @ '' '' @ sqlOperator op @ '' '' @ lit val) ops)
      | _ \<Rightarrow> k @ '' = '' @ lit v))"

fun inline :: "(jsval \<Rightarrow> string) \<Rightarrow> jsval \<Rightarrow> string"
  and inlineAll :: "(jsval \<Rightarrow> string) \<Rightarrow> jsval list \<Rightarrow> string list" where
  "inline lit (JArr cs) = join '' AND '' (inlineAll lit cs)"
| "inline lit (JObj es) =
    (if list_ex (\<lambda>(k, v). k \<in> set combinators) es then
       (case es of
          [(k, v)] \<Rightarrow>
            if k = ''$not'' then ''(NOT '' @ inline lit v @ '')''
            else (case v of
                JArr cs \<Rightarrow> ''('' @ join (if k = ''$and'' then '' AND '' else '' OR '') (inlineAll lit cs) @ '')''
              | _ \<Rightarrow> [])
        | _ \<Rightarrow> [])
     else join '' AND '' (map (inlineColumn lit) es))"
| "inline lit v = []"
| "inlineAll lit [] = []"
| "inlineAll lit (c # cs) = inline lit c # inlineAll lit cs"

text \<open>
  A text with placeholders, the values for them, and the text they make together.
\<close>

definition agrees :: "string \<Rightarrow> string list \<Rightarrow> string \<Rightarrow> bool" where
  "agrees s vs t = (placeholderCount s = length vs \<and> bind s vs = t)"

text \<open>The same for the fragments of a list, each with its own values.\<close>

definition agreeAll :: "string list \<Rightarrow> (string list \<times> string) list \<Rightarrow> bool" where
  "agreeAll ss xs = list_all2 (\<lambda>s (vs, t). agrees s vs t) ss xs"

subsection \<open>Connections reserved and released\<close>

text \<open>
  The handles the pool granted and the handles given back, as a trace records them, in
  order.
\<close>

fun acquired :: "event list \<Rightarrow> nat list" where
  "acquired [] = []"
| "acquired (GetConnection pool (Some c) # evs) = c # acquired evs"
| "acquired (ev # evs) = acquired evs"

fun released :: "event list \<Rightarrow> nat list" where
  "released [] = []"
| "released (Release c # evs) = c # released evs"
| "released (ev # evs) = released evs"

text \<open>
  By how much the pool's count of connections in use changed over the events of a
  trace.
\<close>

definition inUse :: "event list \<Rightarrow> int" where
  "inUse evs = int (length (acquired evs)) - int (length (released evs))"

text \<open>The connection a session holds, as a list of at most one handle.\<close>

definition held :: "nat \<Rightarrow> world \<Rightarrow> nat list" where
  "held this w = (case connection (sessions w this) of None \<Rightarrow> [] | Some c \<Rightarrow> [c])"

text \<open>What was done to the outside between an earlier state and a later one.\<close>

definition since :: "world \<Rightarrow> world \<Rightarrow> event list" where
  "since w0 w = drop (length (trace w0)) (trace w)"

text \<open>
  A list of calls in which \<^verbatim>\<open>init\<close> is only invoked while the session holds no
  connection (a new session, a terminated one, or one whose \<^verbatim>\<open>init\<close> failed).
\<close>

fun initOnlyIdle :: "nat \<Rightarrow> call list \<Rightarrow> world \<Rightarrow> bool" where
  "initOnlyIdle this [] w = True"
| "initOnlyIdle this (Init dbConfig # cs) w =
     (connection (sessions w this) = None \<and> initOnlyIdle this cs (tx_call this (Init dbConfig) w))"
| "initOnlyIdle this (c # cs) w = initOnlyIdle this cs (tx_call this c w)"

text \<open>
  A process right after \<^verbatim>\<open>connectionManager.init({host, user, database})\<close>, with
  the answers the driver is going to give; every session is as its constructor left
  it.
\<close>

definition startWorld :: "outcome list \<Rightarrow> world" where
  "startWorld answers =
    \<lparr>defaultConfig = JObj [(''host'', JStr ''localhost''), (''user'', JStr ''root''),
                            (''database'', JStr ''test_db'')],
     pools = [], sessions = (\<lambda>r. newSession), transactionInstance = None,
     nextConn = 0, trace = [], logged = [], script = answers\<rparr>"

text \<open>
  The four ways a call of a session can move connections: none is granted or given
  back; the held one is given back; one is granted and held; one is granted and
  given back at once.
\<close>

definition quiet :: "nat \<Rightarrow> world \<Rightarrow> world \<Rightarrow> bool" where
  "quiet this w w' = (\<exists>es. trace w' = trace w @ es \<and> acquired es = [] \<and> released es = []
     \<and> nextConn w' = nextConn w \<and> connection (sessions w' this) = connection (sessions w this))"

definition releasing :: "nat \<Rightarrow> world \<Rightarrow> world \<Rightarrow> bool" where
  "releasing this w w' = (\<exists>es c. trace w' = trace w @ es \<and> connection (sessions w this) = Some c
     \<and> acquired es = [] \<and> released es = [c]
     \<and> nextConn w' = nextConn w \<and> connection (sessions w' this) = None)"

definition acquiring :: "nat \<Rightarrow> world \<Rightarrow> world \<Rightarrow> bool" where
  "acquiring this w w' = (\<exists>es. trace w' = trace w @ es
     \<and> acquired es = [nextConn w] \<and> released es = []
     \<and> nextConn w' = Suc (nextConn w) \<and> connection (sessions w' this) = Some (nextConn w))"

definition bouncing :: "nat \<Rightarrow> world \<Rightarrow> world \<Rightarrow> bool" where
  "bouncing this w w' = (\<exists>es. trace w' = trace w @ es
     \<and> acquired es = [nextConn w] \<and> released es = [nextConn w]
     \<and> nextConn w' = Suc (nextConn w) \<and> connection (sessions w' this) = None)"

text \<open>
  The bookkeeping since a state \<open>w0\<close>: the granted handles are fresh and distinct, no
  handle was given back twice, only granted handles were given back, and the held one
  was granted and not given back.
\<close>

definition ledger :: "nat \<Rightarrow> world \<Rightarrow> world \<Rightarrow> bool" where
  "ledger this w0 w = (\<exists>evs. trace w = trace w0 @ evs
     \<and> distinct (acquired evs)
     \<and> set (acquired evs) \<subseteq> {h. h < nextConn w}
     \<and> distinct (released evs) \<and> set (released evs) \<subseteq> set (acquired evs)
     \<and> set (held this w) \<subseteq> set (acquired evs) - set (released evs))"

text \<open>
  Every handle granted since \<open>w0\<close> was given back, in the order of granting, but the
  one still held.
\<close>

definition balanced :: "nat \<Rightarrow> world \<Rightarrow> world \<Rightarrow> bool" where
  "balanced this w0 w = (\<exists>evs. trace w = trace w0 @ evs
     \<and> acquired evs = released evs @ held this w)"

section \<open>The condition compiler: placeholders and parameters\<close>

lemma placeholderCount_append [simp]:
  "placeholderCount (a @ b) = placeholderCount a + placeholderCount b"
  by (simp add: placeholderCount_def)

lemma placeholderCount_Nil [simp]: "placeholderCount [] = 0"
  by (simp add: placeholderCount_def)

lemma placeholderCount_Cons [simp]:
  "placeholderCount (c # s) = (if c = CHR ''?'' then 1 else 0) + placeholderCount s"
  by (simp add: placeholderCount_def)

lemma placeholderCount_free: "CHR ''?'' \<notin> set s \<Longrightarrow> placeholderCount s = 0"
  by (induction s) (auto simp: placeholderCount_def)

lemma placeholderCount_join:
  "placeholderCount sep = 0 \<Longrightarrow> placeholderCount (join sep ss) = sum_list (map placeholderCount ss)"
  by (induction sep ss rule: join.induct) auto

lemma bind_free: "CHR ''?'' \<notin> set s \<Longrightarrow> bind s vs = s"
  by (induction s) auto

lemma bind_append:
  "placeholderCount a = length us \<Longrightarrow> bind (a @ b) (us @ vs) = bind a us @ bind b vs"
proof (induction a arbitrary: us)
  case Nil
  then show ?case by simp
next
  case (Cons c a)
  show ?case
  proof (cases "c = CHR ''?''")
    case True
    with Cons.prems obtain u us' where us: "us = u # us'" "placeholderCount a = length us'"
      by (cases us) auto
    with True Cons.IH [of us'] show ?thesis by simp
  next
    case False
    with Cons show ?thesis by simp
  qed
qed

lemma agrees_text: "CHR ''?'' \<notin> set s \<Longrightarrow> agrees s [] s"
  by (simp add: agrees_def bind_free placeholderCount_free)

lemma agrees_append:
  "agrees a us a' \<Longrightarrow> agrees b vs b' \<Longrightarrow> agrees (a @ b) (us @ vs) (a' @ b')"
  by (simp add: agrees_def bind_append)

lemma agrees_hole: "agrees ''?'' [v] v"
  by (simp add: agrees_def)

lemma agrees_join:
  assumes "CHR ''?'' \<notin> set sep" and "list_all2 (\<lambda>s (vs, t). agrees s vs t) ss xs"
  shows "agrees (join sep ss) (concat (map fst xs)) (join sep (map snd xs))"
  using assms(2)
proof (induction ss xs rule: list_all2_induct)
  case Nil
  then show ?case by (simp add: agrees_def)
next
  case (Cons s ss x xs)
  obtain vs t where x: "x = (vs, t)" by (cases x)
  show ?case
  proof (cases ss)
    case Nil
    with Cons x show ?thesis by simp
  next
    case (Cons s' ss')
    with Cons.hyps(2) obtain x' xs' where xs: "xs = x' # xs'" by (cases xs) auto
    have "agrees (s @ sep @ join sep ss) (vs @ [] @ concat (map fst xs)) (t @ sep @ join sep (map snd xs))"
      using Cons.hyps(1) x Cons.IH assms(1) by (intro agrees_append agrees_text) simp_all
    then show ?thesis using Cons xs x by simp
  qed
qed

lemma bind_prefix: "CHR ''?'' \<notin> set a \<Longrightarrow> bind (a @ b) vs = a @ bind b vs"
  by (induction a) auto

lemma agreeAll_Nil [simp]: "agreeAll [] []"
  by (simp add: agreeAll_def)

lemma agreeAll_Cons [simp]: "agreeAll (s # ss) ((vs, t) # xs) = (agrees s vs t \<and> agreeAll ss xs)"
  by (simp add: agreeAll_def)

lemma agreeAll_join:
  "CHR ''?'' \<notin> set sep \<Longrightarrow> agreeAll ss xs \<Longrightarrow>
     agrees (join sep ss) (concat (map fst xs)) (join sep (map snd xs))"
  unfolding agreeAll_def by (rule agrees_join)

lemma opFragment_comparison:
  assumes "op \<in> set comparisonOps" and "CHR ''?'' \<notin> set column"
  shows "\<exists>s. opFragment column op val ps = Inr (s, ps @ [val])
           \<and> agrees s [lit val] (column @ '' '' @ sqlOperator op @ '' '' @ lit val)"
  using assms
  by (auto simp: comparisonOps_def opFragment_def sqlOperator_def agrees_def
      placeholderCount_free bind_prefix)

lemma opFragments_comparison:
  assumes "list_all (\<lambda>(op, val). op \<in> set comparisonOps) ops" and "CHR ''?'' \<notin> set column"
  shows "\<exists>ss. opFragments column ops ps = Inr (ss, ps @ map snd ops)
            \<and> agreeAll ss (map (\<lambda>(op, val).
                  ([lit val], column @ '' '' @ sqlOperator op @ '' '' @ lit val)) ops)"
  using assms
proof (induction ops arbitrary: ps)
  case Nil
  then show ?case by simp
next
  case (Cons a ops)
  obtain op val where a: "a = (op, val)" by (cases a)
  from Cons.prems a have "op \<in> set comparisonOps" by simp
  from opFragment_comparison [OF this Cons.prems(2), of val ps lit]
  obtain s where s: "opFragment column op val ps = Inr (s, ps @ [val])"
    "agrees s [lit val] (column @ '' '' @ sqlOperator op @ '' '' @ lit val)"
    by blast
  from Cons.IH [of "ps @ [val]"] Cons.prems
  obtain ss where ss: "opFragments column ops (ps @ [val]) = Inr (ss, (ps @ [val]) @ map snd ops)"
      "agreeAll ss (map (\<lambda>(op, val).
                  ([lit val], column @ '' '' @ sqlOperator op @ '' '' @ lit val)) ops)" by auto
  show ?case using s ss a by simp
qed

lemma concat_singletons: "concat (map (\<lambda>(op, val). [f val]) ops) = map f (map snd ops)"
  by (induction ops) auto

lemma buildCondition_column:
  assumes "columnOk (k, v)"
  shows "\<exists>s. buildCondition k v ps = Inr (s, ps @ columnLeaves v)
           \<and> agrees s (map lit (columnLeaves v)) (inlineColumn lit (k, v))"
proof (cases v)
  case (JObj ops)
  with assms have "list_all (\<lambda>(op, val). op \<in> set comparisonOps) ops" "CHR ''?'' \<notin> set k"
    by (auto simp: columnOk_def)
  from opFragments_comparison [OF this, of ps lit]
  obtain ss where ss: "opFragments k ops ps = Inr (ss, ps @ map snd ops)"
    "agreeAll ss (map (\<lambda>(op, val). ([lit val], k @ '' '' @ sqlOperator op @ '' '' @ lit val)) ops)"
    by blast
  have "agrees (join '' AND '' ss) (map lit (map snd ops))
     (join '' AND '' (map (\<lambda>(op, val). k @ '' '' @ sqlOperator op @ '' '' @ lit val) ops))"
    using agreeAll_join [OF _ ss(2), of "'' AND ''"]
    by (simp add: o_def split_def concat_singletons [unfolded split_def])
  with ss(1) JObj show ?thesis by (simp add: inlineColumn_def)
qed (use assms in \<open>auto simp: columnOk_def inlineColumn_def agrees_def placeholderCount_free bind_prefix\<close>)

lemma entryLeaves_columns:
  "list_all columnOk es \<Longrightarrow> entryLeaves es = concat (map (\<lambda>(k, v). columnLeaves v) es)"
  by (induction es) (auto simp: columnOk_def combinators_def)

lemma buildConditions_columns:
  assumes "list_all columnOk es"
  shows "\<exists>ss. buildConditions es ps = Inr (ss, ps @ entryLeaves es)
            \<and> agreeAll ss (map (\<lambda>(k, v). (map lit (columnLeaves v), inlineColumn lit (k, v))) es)"
  using assms
proof (induction es arbitrary: ps)
  case Nil
  then show ?case by simp
next
  case (Cons a es)
  obtain k v where a: "a = (k, v)" by (cases a)
  with Cons.prems have ok: "columnOk (k, v)" and rest: "list_all columnOk es" by auto
  from buildCondition_column [OF ok, of ps lit]
  obtain s where s: "buildCondition k v ps = Inr (s, ps @ columnLeaves v)"
     "agrees s (map lit (columnLeaves v)) (inlineColumn lit (k, v))" by blast
  from Cons.IH [OF rest, of "ps @ columnLeaves v"]
  obtain ss where ss: "buildConditions es (ps @ columnLeaves v) = Inr (ss, (ps @ columnLeaves v) @ entryLeaves es)"
     "agreeAll ss (map (\<lambda>(k, v). (map lit (columnLeaves v), inlineColumn lit (k, v))) es)" by blast
  have "k \<noteq> ''$and''" "k \<noteq> ''$or''" "k \<noteq> ''$not''"
    using ok by (auto simp: columnOk_def combinators_def)
  then show ?case using s ss a by simp
qed

lemma columns_join:
  assumes "list_all columnOk es"
    and "agreeAll ss (map (\<lambda>(k, v). (map lit (columnLeaves v), inlineColumn lit (k, v))) es)"
  shows "agrees (join '' AND '' ss) (map lit (entryLeaves es)) (join '' AND '' (map (inlineColumn lit) es))"
proof -
  let ?g = "\<lambda>(k, v). (map lit (columnLeaves v), inlineColumn lit (k, v))"
  have a: "concat (map fst (map ?g es)) = map lit (entryLeaves es)"
    by (simp add: entryLeaves_columns [OF assms(1)] map_concat o_def split_def)
  have b: "map snd (map ?g es) = map (inlineColumn lit) es"
    by (induction es) auto
  have "agrees (join '' AND '' ss) (concat (map fst (map ?g es))) (join '' AND '' (map snd (map ?g es)))"
    by (rule agreeAll_join [OF _ assms(2)]) simp
  then show ?thesis by (simp only: a b)
qed

lemma no_combinator_keys:
  "\<not> list_ex (\<lambda>(k, v). k \<in> set combinators) es \<Longrightarrow>
     \<not> hasKey ''$and'' es \<and> \<not> hasKey ''$or'' es \<and> \<not> hasKey ''$not'' es"
  by (induction es) (auto simp: hasKey_def combinators_def)

lemma leavesAll_concat: "leavesAll cs = concat (map leaves cs)"
  by (induction cs) auto

lemma inlineAll_map: "inlineAll lit cs = map (inline lit) cs"
  by (induction cs) auto

lemma trees_join:
  assumes "CHR ''?'' \<notin> set sep"
    and "agreeAll ss (map (\<lambda>c. (map lit (leaves c), inline lit c)) cs)"
  shows "agrees (join sep ss) (map lit (leavesAll cs)) (join sep (inlineAll lit cs))"
  using agreeAll_join [OF assms]
  by (simp add: leavesAll_concat inlineAll_map map_concat o_def)

lemma condTree_combinator:
  assumes "condTree (JObj es)" and "list_ex (\<lambda>(k, v). k \<in> set combinators) es"
  obtains v where "es = [(''$not'', v)]" and "condTree v"
  | k cs where "es = [(k, JArr cs)]" and "k = ''$and'' \<or> k = ''$or''" and "condTrees cs"
proof (cases es)
  case Nil
  with assms show ?thesis by simp
next
  case (Cons a es')
  obtain k v where a: "a = (k, v)" by (cases a)
  show ?thesis
  proof (cases es')
    case Nil
    with assms Cons a have k: "k \<in> set combinators"
      and body: "if k = ''$not'' then condTree v else (case v of JArr cs \<Rightarrow> condTrees cs | _ \<Rightarrow> False)"
      by simp_all
    show ?thesis
    proof (cases "k = ''$not''")
      case True
      with body Cons Nil a that(1) show ?thesis by simp
    next
      case False
      with body obtain cs where "v = JArr cs" "condTrees cs" by (cases v) simp_all
      moreover from False k have "k = ''$and'' \<or> k = ''$or''" by (simp add: combinators_def)
      ultimately show ?thesis using Cons Nil a that(2) by simp
    qed
  next
    case (Cons b es'')
    with assms \<open>es = a # es'\<close> a show ?thesis by simp
  qed
qed

lemma walk_condTree:
  "condTree c \<Longrightarrow> \<exists>s. walk c ps = Inr (s, ps @ leaves c)
      \<and> agrees s (map lit (leaves c)) (inline lit c)"
  "condTrees cs \<Longrightarrow> \<exists>ss. walkAll cs ps = Inr (ss, ps @ leavesAll cs)
      \<and> agreeAll ss (map (\<lambda>c. (map lit (leaves c), inline lit c)) cs)"
proof (induction c ps and cs ps rule: walk_walkAll.induct)
  case (6 xs params)
  then obtain ss where ss: "walkAll xs params = Inr (ss, params @ leavesAll xs)"
    "agreeAll ss (map (\<lambda>c. (map lit (leaves c), inline lit c)) xs)" by auto
  from trees_join [OF _ ss(2), of "'' AND ''"] ss(1) show ?case by simp
next
  case (7 es params)
  show ?case
  proof (cases "list_ex (\<lambda>(k, v). k \<in> set combinators) es")
    case False
    with 7(4) have ok: "list_all columnOk es" by simp
    from buildConditions_columns [OF ok, of params lit]
    obtain ss where ss: "buildConditions es params = Inr (ss, params @ entryLeaves es)"
      "agreeAll ss (map (\<lambda>(k, v). (map lit (columnLeaves v), inlineColumn lit (k, v))) es)"
      by blast
    from columns_join [OF ok ss(2)] ss(1) no_combinator_keys [OF False] False
    show ?thesis by simp
  next
    case True
    from 7(4) True show ?thesis
    proof (cases rule: condTree_combinator)
      case (1 v)
      then have h: "\<not> hasKey ''$and'' es" "\<not> hasKey ''$or'' es" "hasKey ''$not'' es"
        and v: "field es ''$not'' = v"
        by (simp_all add: hasKey_def field_def)
      from 7(3) [OF h] 1(2) v
      obtain s where s: "walk v params = Inr (s, params @ leaves v)"
        "agrees s (map lit (leaves v)) (inline lit v)" by auto
      have "agrees (''(NOT '' @ s @ '')'') ([] @ map lit (leaves v) @ []) (''(NOT '' @ inline lit v @ '')'')"
        using s(2) by (intro agrees_append agrees_text) simp_all
      with s(1) h v 1(1) show ?thesis by (simp add: combinators_def)
    next
      case (2 k cs)
      from 2(2) show ?thesis
      proof
        assume k: "k = ''$and''"
        with 2 have h: "hasKey ''$and'' es" "field es ''$and'' = JArr cs"
          by (simp_all add: hasKey_def field_def)
        from 7(1) [OF h 2(3)]
        obtain ss where ss: "walkAll cs params = Inr (ss, params @ leavesAll cs)"
          "agreeAll ss (map (\<lambda>c. (map lit (leaves c), inline lit c)) cs)" by blast
        have "agrees (''('' @ join '' AND '' ss @ '')'') ([] @ map lit (leavesAll cs) @ [])
            (''('' @ join '' AND '' (inlineAll lit cs) @ '')'')"
          using trees_join [OF _ ss(2), of "'' AND ''"]
          by (intro agrees_append agrees_text) simp_all
        with ss(1) h 2(1) k show ?thesis by (simp add: combinators_def)
      next
        assume k: "k = ''$or''"
        with 2 have h: "\<not> hasKey ''$and'' es" "hasKey ''$or'' es" "field es ''$or'' = JArr cs"
          by (simp_all add: hasKey_def field_def)
        from 7(2) [OF h 2(3)]
        obtain ss where ss: "walkAll cs params = Inr (ss, params @ leavesAll cs)"
          "agreeAll ss (map (\<lambda>c. (map lit (leaves c), inline lit c)) cs)" by blast
        have "agrees (''('' @ join '' OR '' ss @ '')'') ([] @ map lit (leavesAll cs) @ [])
            (''('' @ join '' OR '' (inlineAll lit cs) @ '')'')"
          using trees_join [OF _ ss(2), of "'' OR ''"]
          by (intro agrees_append agrees_text) simp_all
        with ss(1) h 2(1) k show ?thesis by (simp add: combinators_def)
      qed
    qed
  qed
next
  case (10 x xs params)
  from 10(3) have c: "condTree x" and cs: "condTrees xs" by simp_all
  from 10(1) [OF c] obtain s where s: "walk x params = Inr (s, params @ leaves x)"
     "agrees s (map lit (leaves x)) (inline lit x)" by blast
  from 10(2) [OF s(1) refl cs]
  obtain ss where "walkAll xs (params @ leaves x) = Inr (ss, (params @ leaves x) @ leavesAll xs)"
     "agreeAll ss (map (\<lambda>c. (map lit (leaves c), inline lit c)) xs)" by auto
  with s show ?case by simp
qed (simp_all add: agrees_def)

text \<open>
  C1 (as amended). For every condition tree whose column names are free of \<^verbatim>\<open>?\<close>
  (comparison operators only, so no \<^verbatim>\<open>$in\<close> and no \<^verbatim>\<open>$between\<close>) with N comparison
  leaves, the condition compiler returns a clause with exactly N placeholders and a
  parameter list of exactly N entries, which is the list of the leaves' operands in
  depth-first, left-to-right order; and binding the i-th parameter to the i-th
  placeholder gives the predicate of the tree with every operand at its own leaf.
  Trees with a key beside a combinator in one object, or with an object such as a
  \<^verbatim>\<open>Date\<close> as the plain value of a column, are left out of the statement.
\<close>

theorem where_clause:
  assumes "condTree c"
  shows "\<exists>clause. buildWhereClause c = Inr (clause, leaves c)
           \<and> placeholderCount clause = length (leaves c)
           \<and> (\<forall>lit. bind clause (map lit (leaves c)) = inline lit c)"
proof -
  from walk_condTree(1) [OF assms, of "[]"]
  obtain s where s: "walk c [] = Inr (s, leaves c)" by auto
  have "agrees s (map lit (leaves c)) (inline lit c)" for lit
    using walk_condTree(1) [OF assms, of "[]" lit] s by auto
  then show ?thesis using s by (simp add: buildWhereClause_def agrees_def)
qed

theorem where_clause_witness:
  "condTree (JObj [(''$or'', JArr [JObj [(''a'', JNum 1)],
       JObj [(''b'', JObj [(''$gt'', JNum 2), (''$lt'', JNum 5)])]])])
   \<and> (\<exists>clause.
         buildWhereClause (JObj [(''$or'', JArr [JObj [(''a'', JNum 1)],
             JObj [(''b'', JObj [(''$gt'', JNum 2), (''$lt'', JNum 5)])]])])
           = Inr (clause, [JNum 1, JNum 2, JNum 5])
       \<and> placeholderCount clause = 3
       \<and> bind clause (map toStr [JNum 1, JNum 2, JNum 5]) = ''(a = 1 OR b > 2 AND b < 5)'')"
proof -
  let ?c = "JObj [(''$or'', JArr [JObj [(''a'', JNum 1)],
       JObj [(''b'', JObj [(''$gt'', JNum 2), (''$lt'', JNum 5)])]])]"
  have h: "condTree ?c"
    by (simp add: combinators_def columnOk_def comparisonOps_def)
  have l: "leaves ?c = [JNum 1, JNum 2, JNum 5]" by simp
  have i: "inline toStr ?c = ''(a = 1 OR b > 2 AND b < 5)''"
    by (simp add: combinators_def inlineColumn_def sqlOperator_def decimal.simps digit_def)
  from where_clause [OF h] obtain clause
    where c: "buildWhereClause ?c = Inr (clause, leaves ?c)"
      and n: "placeholderCount clause = length (leaves ?c)"
      and b: "\<forall>lit. bind clause (map lit (leaves ?c)) = inline lit ?c"
    by blast
  from c have c': "buildWhereClause ?c = Inr (clause, [JNum 1, JNum 2, JNum 5])"
    by (simp only: l)
  from n have n': "placeholderCount clause = 3" by (simp only: l) simp
  from b have "bind clause (map toStr (leaves ?c)) = inline toStr ?c" by blast
  then have b': "bind clause (map toStr [JNum 1, JNum 2, JNum 5]) = ''(a = 1 OR b > 2 AND b < 5)''"
    by (simp only: l i)
  from h c' n' b' show ?thesis by blast
qed

text \<open>
  Stated of every condition tree, C1 does not hold, by the design of the compiler: a
  column name is copied into the clause as it is, and to the driver every \<^verbatim>\<open>?\<close> of
  the text is a placeholder. \<^verbatim>\<open>{'a?': 1}\<close> has one comparison leaf and compiles to
  a clause with two placeholders and one parameter.
\<close>

theorem where_clause_counterexample:
  "buildWhereClause (JObj [(''a?'', JNum 1)]) = Inr (''a? = ?'', [JNum 1])
   \<and> leaves (JObj [(''a?'', JNum 1)]) = [JNum 1]
   \<and> placeholderCount ''a? = ?'' = 2"
  by (simp add: buildWhereClause_def hasKey_def)

subsection \<open>The trees left out\<close>

text \<open>
  The README of the library writes a column beside a combinator in one object
  (``Complex nested conditions'': \<^verbatim>\<open>{status: 'pending', $or: [...]}\<close>, and
  \<^verbatim>\<open>{age: {$gte: 18}, $or: [...]}\<close> in its complete example). \<^verbatim>\<open>walk\<close> tests
  \<^verbatim>\<open>'$and' in cond\<close>, \<^verbatim>\<open>'$or' in cond\<close> and \<^verbatim>\<open>'$not' in cond\<close> first and returns
  from the first that holds, so the other keys of the object are never compiled: of
  the four comparison leaves of the README's tree the clause has three, and the
  condition on \<^verbatim>\<open>status\<close> is lost. This is a defect of the code, not a property
  to rely on.
\<close>

lemma sibling_keys_dropped:
  "buildWhereClause
     (JObj [(''status'', JStr ''pending''),
            (''$or'', JArr [JObj [(''total'', JObj [(''$gte'', JNum 1000)])],
                            JObj [(''$and'', JArr [JObj [(''priority'', JStr ''high'')],
                                                   JObj [(''customer_type'', JStr ''vip'')]])]])])
     = Inr (''(total >= ? OR (priority = ? AND customer_type = ?))'',
            [JNum 1000, JStr ''high'', JStr ''vip''])
   \<and> leaves
     (JObj [(''status'', JStr ''pending''),
            (''$or'', JArr [JObj [(''total'', JObj [(''$gte'', JNum 1000)])],
                            JObj [(''$and'', JArr [JObj [(''priority'', JStr ''high'')],
                                                   JObj [(''customer_type'', JStr ''vip'')]])]])])
     = [JStr ''pending'', JNum 1000, JStr ''high'', JStr ''vip'']"
  by (simp add: buildWhereClause_def hasKey_def field_def opFragment_def)

text \<open>
  \<^verbatim>\<open>buildCondition\<close> takes every object that is not an array for an operator map.
  A \<^verbatim>\<open>Date\<close> as the plain value of a column has no entry to map over: the fragment
  is empty and the value is not bound (as an operand of an operator, \<^verbatim>\<open>{$lt: new
  Date()}\<close>, it is bound like any other).
\<close>

lemma object_operand_dropped:
  "buildWhereClause (JObj [(''created_at'', JOther d)]) = Inr ([], [])
   \<and> leaves (JObj [(''created_at'', JOther d)]) = [JOther d]
   \<and> buildWhereClause (JObj [(''created_at'', JObj [(''$lt'', JOther d)])])
       = Inr (''created_at < ?'', [JOther d])"
  by (simp add: buildWhereClause_def hasKey_def opFragment_def)

section \<open>Empty lists and malformed ranges\<close>

lemma walk_single_column:
  "column \<noteq> ''$and'' \<Longrightarrow> column \<noteq> ''$or'' \<Longrightarrow> column \<noteq> ''$not'' \<Longrightarrow>
    walk (JObj [(column, v)]) params =
      (case buildCondition column v params of
         Inl e \<Rightarrow> Inl e
       | Inr (s, params') \<Rightarrow> Inr (s, params'))"
  by (auto simp: hasKey_def split: sum.splits)

lemma opFragments_append:
  "opFragments column (xs @ ys) params =
    (case opFragments column xs params of
       Inl e \<Rightarrow> Inl e
     | Inr (ss, ps) \<Rightarrow>
         (case opFragments column ys ps of
            Inl e \<Rightarrow> Inl e
          | Inr (ss', ps') \<Rightarrow> Inr (ss @ ss', ps')))"
  by (induction xs arbitrary: params) (auto split: sum.splits)

text \<open>
  C6. For every column, \<^verbatim>\<open>$in\<close> with the empty list compiles to the always-false
  fragment \<^verbatim>\<open>FALSE\<close> (not to \<^verbatim>\<open>IN ()\<close>) and pushes no parameter; \<^verbatim>\<open>$nin\<close>,
  \<^verbatim>\<open>$notIn\<close> and \<^verbatim>\<open>$nIn\<close> with the empty list compile to the always-true fragment
  \<^verbatim>\<open>TRUE\<close> and push no parameter. So it is for the operator alone; among the other
  operators of the column's operator map, where the fragment stands at the operator's
  place and the parameters are those of the operators before and after it; and for
  the clause of a column with that operator only.
\<close>

theorem empty_membership:
  "opFragment column ''$in'' (JArr []) params = Inr (''FALSE'', params)
   \<and> (op \<in> {''$nin'', ''$notIn'', ''$nIn''} \<longrightarrow>
        opFragment column op (JArr []) params = Inr (''TRUE'', params))
   \<and> (opFragments column before params = Inr (ss, ps)
        \<and> opFragments column after ps = Inr (ss', ps') \<longrightarrow>
        buildCondition column (JObj (before @ (''$in'', JArr []) # after)) params
          = Inr (join '' AND '' (ss @ ''FALSE'' # ss'), ps')
        \<and> (op \<in> {''$nin'', ''$notIn'', ''$nIn''} \<longrightarrow>
             buildCondition column (JObj (before @ (op, JArr []) # after)) params
               = Inr (join '' AND '' (ss @ ''TRUE'' # ss'), ps')))
   \<and> (column \<notin> set combinators \<longrightarrow>
        buildWhereClause (JObj [(column, JObj [(''$in'', JArr [])])]) = Inr (''FALSE'', [])
        \<and> (op \<in> {''$nin'', ''$notIn'', ''$nIn''} \<longrightarrow>
             buildWhereClause (JObj [(column, JObj [(op, JArr [])])]) = Inr (''TRUE'', [])))"
proof -
  have f: "opFragment column ''$in'' (JArr []) qs = Inr (''FALSE'', qs)" for qs
    by (simp add: opFragment_def)
  have t: "opFragment column op (JArr []) qs = Inr (''TRUE'', qs)"
    if "op \<in> {''$nin'', ''$notIn'', ''$nIn''}" for qs
    using that by (auto simp: opFragment_def)
  have among: "buildCondition column (JObj (before @ (o', JArr []) # after)) params
          = Inr (join '' AND '' (ss @ x # ss'), ps')"
    if "opFragments column before params = Inr (ss, ps)"
      and "opFragments column after ps = Inr (ss', ps')"
      and "opFragment column o' (JArr []) ps = Inr (x, ps)" for o' x
    using that by (simp add: opFragments_append)
  have alone: "buildWhereClause (JObj [(column, JObj [(o', JArr [])])]) = Inr (x, [])"
    if "column \<notin> set combinators" and "opFragment column o' (JArr []) [] = Inr (x, [])" for o' x
    using that
    by (simp add: buildWhereClause_def walk_single_column combinators_def del: walk.simps)
  from f t among [OF _ _ f] among [OF _ _ t] alone [OF _ f] alone [OF _ t]
  show ?thesis by blast
qed

theorem empty_membership_witness:
  "''$nin'' \<in> {''$nin'', ''$notIn'', ''$nIn''} \<and> ''status'' \<notin> set combinators
   \<and> opFragments ''status'' [(''$ne'', JStr ''x'')] [] = Inr ([''status != ?''], [JStr ''x''])
   \<and> opFragments ''status'' [(''$like'', JStr ''a%'')] [JStr ''x'']
       = Inr ([''status LIKE ?''], [JStr ''x'', JStr ''a%''])
   \<and> opFragment ''status'' ''$nin'' (JArr []) [] = Inr (''TRUE'', [])
   \<and> buildCondition ''status''
         (JObj [(''$ne'', JStr ''x''), (''$in'', JArr []), (''$like'', JStr ''a%'')]) []
       = Inr (''status != ? AND FALSE AND status LIKE ?'', [JStr ''x'', JStr ''a%''])
   \<and> buildCondition ''status''
         (JObj [(''$ne'', JStr ''x''), (''$nin'', JArr []), (''$like'', JStr ''a%'')]) []
       = Inr (''status != ? AND TRUE AND status LIKE ?'', [JStr ''x'', JStr ''a%''])
   \<and> buildWhereClause (JObj [(''status'', JObj [(''$in'', JArr [])])]) = Inr (''FALSE'', [])
   \<and> buildWhereClause (JObj [(''status'', JObj [(''$nin'', JArr [])])]) = Inr (''TRUE'', [])"
proof -
  have h1: "''$nin'' \<in> {''$nin'', ''$notIn'', ''$nIn''}" by simp
  have h2: "''status'' \<notin> set combinators" by (simp add: combinators_def)
  have h3: "opFragments ''status'' [(''$ne'', JStr ''x'')] [] = Inr ([''status != ?''], [JStr ''x''])"
    by (simp add: opFragment_def)
  have h4: "opFragments ''status'' [(''$like'', JStr ''a%'')] [JStr ''x'']
       = Inr ([''status LIKE ?''], [JStr ''x'', JStr ''a%''])"
    by (simp add: opFragment_def)
  note inst = empty_membership [of "''status''" "[]" "''$nin''" "[(''$ne'', JStr ''x'')]"
      "[''status != ?'']" "[JStr ''x'']" "[(''$like'', JStr ''a%'')]" "[''status LIKE ?'']"
      "[JStr ''x'', JStr ''a%'']"]
  from inst h1 have a: "opFragment ''status'' ''$nin'' (JArr []) [] = Inr (''TRUE'', [])"
    by blast
  from inst h3 h4 have b: "buildCondition ''status''
         (JObj ([(''$ne'', JStr ''x'')] @ (''$in'', JArr []) # [(''$like'', JStr ''a%'')])) []
       = Inr (join '' AND '' ([''status != ?''] @ ''FALSE'' # [''status LIKE ?'']),
              [JStr ''x'', JStr ''a%''])" by blast
  from inst h1 h3 h4 have c: "buildCondition ''status''
         (JObj ([(''$ne'', JStr ''x'')] @ (''$nin'', JArr []) # [(''$like'', JStr ''a%'')])) []
       = Inr (join '' AND '' ([''status != ?''] @ ''TRUE'' # [''status LIKE ?'']),
              [JStr ''x'', JStr ''a%''])" by blast
  from inst h2 have d: "buildWhereClause (JObj [(''status'', JObj [(''$in'', JArr [])])])
       = Inr (''FALSE'', [])" by blast
  from inst h1 h2 have e: "buildWhereClause (JObj [(''status'', JObj [(''$nin'', JArr [])])])
       = Inr (''TRUE'', [])" by blast
  from b have b': "buildCondition ''status''
         (JObj [(''$ne'', JStr ''x''), (''$in'', JArr []), (''$like'', JStr ''a%'')]) []
       = Inr (''status != ? AND FALSE AND status LIKE ?'', [JStr ''x'', JStr ''a%''])"
    by (simp del: buildCondition.simps)
  from c have c': "buildCondition ''status''
         (JObj [(''$ne'', JStr ''x''), (''$nin'', JArr []), (''$like'', JStr ''a%'')]) []
       = Inr (''status != ? AND TRUE AND status LIKE ?'', [JStr ''x'', JStr ''a%''])"
    by (simp del: buildCondition.simps)
  from h1 h2 h3 h4 a b' c' d e show ?thesis by blast
qed

lemma between_pair:
  "opFragment column ''$between'' (JArr [lo, hi]) params
     = Inr (column @ '' BETWEEN ? AND ?'', params @ [lo, hi])"
  by (simp add: opFragment_def)

lemma between_malformed:
  "length xs \<noteq> 2 \<Longrightarrow>
     opFragment column ''$between'' (JArr xs) params = Inl (Error ''$between requires [min, max]'')"
  by (simp add: opFragment_def)

text \<open>
  C7. For every column, \<^verbatim>\<open>$between\<close> with the two-element array \<^verbatim>\<open>[lo, hi]\<close>
  compiles to \<^verbatim>\<open>col BETWEEN ? AND ?\<close> and pushes \<^verbatim>\<open>lo\<close>, then \<^verbatim>\<open>hi\<close>; with
  an array of any other length it throws the usage error
  \<^verbatim>\<open>$between requires [min, max]\<close>. The error leaves the builder before anything is
  sent: a delete descriptor (with a table) or an update descriptor (with a settable
  field) whose \<^verbatim>\<open>where\<close> is such a condition throws it from the executing entry
  point, and the world is as before (no pool resolved, no statement in the trace).
\<close>

theorem between_operator:
  "buildCondition column (JObj [(''$between'', JArr [lo, hi])]) params
     = Inr (column @ '' BETWEEN ? AND ?'', params @ [lo, hi])
   \<and> (length xs \<noteq> 2 \<longrightarrow>
        buildCondition column (JObj [(''$between'', JArr xs)]) params
          = Inl (Error ''$between requires [min, max]''))
   \<and> (length xs \<noteq> 2 \<and> column \<notin> set combinators
        \<and> field options ''where'' = JObj [(column, JObj [(''$between'', JArr xs)])] \<longrightarrow>
        (\<not> falsy (field options ''table'') \<longrightarrow>
           buildAndExecuteDeleteQuery options dbConfig w
             = (Inl (Error ''$between requires [min, max]''), w))
        \<and> (\<forall>setFields ps.
             prepareUpdateParams (field options ''data'') = Inr (setFields, ps) \<and> setFields \<noteq> [] \<longrightarrow>
             buildAndExecuteUpdateQuery options dbConfig w
               = (Inl (Error ''$between requires [min, max]''), w)))"
proof -
  have pair: "buildCondition column (JObj [(''$between'', JArr [lo, hi])]) params
     = Inr (column @ '' BETWEEN ? AND ?'', params @ [lo, hi])"
    by (simp add: between_pair)
  have bad: "buildCondition column (JObj [(''$between'', JArr xs)]) params
          = Inl (Error ''$between requires [min, max]'')" if "length xs \<noteq> 2"
    using that by (simp add: between_malformed)
  have clause: "buildWhereClause (field options ''where'') = Inl (Error ''$between requires [min, max]'')"
    if "length xs \<noteq> 2" and "column \<notin> set combinators"
      and "field options ''where'' = JObj [(column, JObj [(''$between'', JArr xs)])]"
    using that
    by (simp add: buildWhereClause_def walk_single_column between_malformed combinators_def
        del: walk.simps)
  have del: "buildAndExecuteDeleteQuery options dbConfig w
             = (Inl (Error ''$between requires [min, max]''), w)"
    if "length xs \<noteq> 2" and "column \<notin> set combinators"
      and "field options ''where'' = JObj [(column, JObj [(''$between'', JArr xs)])]"
      and "\<not> falsy (field options ''table'')"
    using clause [OF that(1,2,3)] that(3,4)
    by (simp add: buildAndExecuteDeleteQuery_def buildDeleteQuery_def)
  have upd: "buildAndExecuteUpdateQuery options dbConfig w
             = (Inl (Error ''$between requires [min, max]''), w)"
    if "length xs \<noteq> 2" and "column \<notin> set combinators"
      and "field options ''where'' = JObj [(column, JObj [(''$between'', JArr xs)])]"
      and "prepareUpdateParams (field options ''data'') = Inr (setFields, ps)" and "setFields \<noteq> []"
    for setFields ps
    using clause [OF that(1,2,3)] that(3,4,5)
    by (simp add: buildAndExecuteUpdateQuery_def buildUpdateQuery_def)
  from pair bad del upd show ?thesis by blast
qed

theorem between_operator_witness:
  "length [JNum 1, JNum 2, JNum 3] \<noteq> 2 \<and> ''price'' \<notin> set combinators
   \<and> field [(''table'', JStr ''items''), (''data'', JObj [(''n'', JNum 1)]),
        (''where'', JObj [(''price'', JObj [(''$between'', JArr [JNum 1, JNum 2, JNum 3])])])] ''where''
       = JObj [(''price'', JObj [(''$between'', JArr [JNum 1, JNum 2, JNum 3])])]
   \<and> \<not> falsy (field [(''table'', JStr ''items''), (''data'', JObj [(''n'', JNum 1)]),
        (''where'', JObj [(''price'', JObj [(''$between'', JArr [JNum 1, JNum 2, JNum 3])])])] ''table'')
   \<and> prepareUpdateParams (field [(''table'', JStr ''items''), (''data'', JObj [(''n'', JNum 1)]),
        (''where'', JObj [(''price'', JObj [(''$between'', JArr [JNum 1, JNum 2, JNum 3])])])] ''data'')
       = Inr ([''n = ?''], [JNum 1])
   \<and> buildCondition ''price'' (JObj [(''$between'', JArr [JNum 10, JNum 100])]) []
       = Inr (''price BETWEEN ? AND ?'', [JNum 10, JNum 100])
   \<and> buildCondition ''price'' (JObj [(''$between'', JArr [JNum 1, JNum 2, JNum 3])]) []
       = Inl (Error ''$between requires [min, max]'')
   \<and> buildAndExecuteDeleteQuery
         [(''table'', JStr ''items''), (''data'', JObj [(''n'', JNum 1)]),
          (''where'', JObj [(''price'', JObj [(''$between'', JArr [JNum 1, JNum 2, JNum 3])])])]
         JUndefined (startWorld [])
       = (Inl (Error ''$between requires [min, max]''), startWorld [])
   \<and> buildAndExecuteUpdateQuery
         [(''table'', JStr ''items''), (''data'', JObj [(''n'', JNum 1)]),
          (''where'', JObj [(''price'', JObj [(''$between'', JArr [JNum 1, JNum 2, JNum 3])])])]
         JUndefined (startWorld [])
       = (Inl (Error ''$between requires [min, max]''), startWorld [])"
proof -
  let ?xs = "[JNum 1, JNum 2, JNum 3]"
  let ?o = "[(''table'', JStr ''items''), (''data'', JObj [(''n'', JNum 1)]),
        (''where'', JObj [(''price'', JObj [(''$between'', JArr ?xs)])])]"
  have h1: "length ?xs \<noteq> 2" by simp
  have h2: "''price'' \<notin> set combinators" by (simp add: combinators_def)
  have h3: "field ?o ''where'' = JObj [(''price'', JObj [(''$between'', JArr ?xs)])]"
    by (simp add: field_def)
  have h4: "\<not> falsy (field ?o ''table'')" by (simp add: field_def)
  have h5: "prepareUpdateParams (field ?o ''data'') = Inr ([''n = ?''], [JNum 1])"
    by (simp add: field_def prepareUpdateParams_def)
  have h6: "[''n = ?''] \<noteq> []" by simp
  note inst = between_operator [of "''price''" "JNum 10" "JNum 100" "[]" ?xs ?o JUndefined "startWorld []"]
  from inst have a: "buildCondition ''price'' (JObj [(''$between'', JArr [JNum 10, JNum 100])]) []
       = Inr (''price BETWEEN ? AND ?'', [JNum 10, JNum 100])" by simp
  from inst h1 have b: "buildCondition ''price'' (JObj [(''$between'', JArr ?xs)]) []
       = Inl (Error ''$between requires [min, max]'')" by blast
  from inst h1 h2 h3 h4 have c: "buildAndExecuteDeleteQuery ?o JUndefined (startWorld [])
       = (Inl (Error ''$between requires [min, max]''), startWorld [])" by blast
  from inst h1 h2 h3 h5 h6 have d: "buildAndExecuteUpdateQuery ?o JUndefined (startWorld [])
       = (Inl (Error ''$between requires [min, max]''), startWorld [])" by blast
  from h1 h2 h3 h4 h5 a b c d show ?thesis by blast
qed

section \<open>The delete and update builders\<close>

lemma empty_object_clause: "buildWhereClause (JObj []) = Inr ([], [])"
  by (simp add: buildWhereClause_def hasKey_def)

text \<open>
  C4. For every delete descriptor whose \<^verbatim>\<open>where\<close> key is absent, or whose
  condition tree compiles to the empty clause (\<^verbatim>\<open>where: {}\<close> is one), the delete
  query builder throws: it returns no statement, and \<^verbatim>\<open>buildAndExecuteDeleteQuery\<close>
  throws the same error with the world as before, so nothing was sent to the database.
\<close>

theorem delete_requires_where:
  assumes "\<not> hasKey ''where'' options
     \<or> (\<exists>params. buildWhereClause (field options ''where'') = Inr ([], params))"
  shows "\<exists>e. buildDeleteQuery options = Inl e
       \<and> buildAndExecuteDeleteQuery options dbConfig w = (Inl e, w)"
proof -
  have absent: "field options ''where'' = JUndefined" if "\<not> hasKey ''where'' options"
  proof -
    from that have "map_of options ''where'' = None"
      by (simp add: hasKey_def map_of_eq_None_iff)
    then show ?thesis by (simp add: field_def)
  qed
  from assms have "\<exists>e. buildDeleteQuery options = Inl e"
    by (auto simp: buildDeleteQuery_def Let_def absent)
  then show ?thesis by (auto simp: buildAndExecuteDeleteQuery_def)
qed

theorem delete_requires_where_witness:
  "\<not> hasKey ''where'' [(''table'', JStr ''users'')]
   \<and> buildAndExecuteDeleteQuery [(''table'', JStr ''users'')] JUndefined (startWorld [])
       = (Inl (Error ''DELETE requires a WHERE clause for safety''), startWorld [])
   \<and> buildWhereClause (field [(''table'', JStr ''users''), (''where'', JObj [])] ''where'')
       = Inr ([], [])
   \<and> buildAndExecuteDeleteQuery [(''table'', JStr ''users''), (''where'', JObj [])] JUndefined
         (startWorld [])
       = (Inl (Error ''DELETE requires a valid WHERE clause for safety''), startWorld [])"
proof -
  let ?o1 = "[(''table'', JStr ''users'')]"
  let ?o2 = "[(''table'', JStr ''users''), (''where'', JObj [])]"
  have h1: "\<not> hasKey ''where'' ?o1" by (simp add: hasKey_def)
  have h2: "buildWhereClause (field ?o2 ''where'') = Inr ([], [])"
    by (simp add: field_def empty_object_clause)
  have e1: "buildDeleteQuery ?o1 = Inl (Error ''DELETE requires a WHERE clause for safety'')"
    by (simp add: buildDeleteQuery_def field_def)
  have e2: "buildDeleteQuery ?o2 = Inl (Error ''DELETE requires a valid WHERE clause for safety'')"
    by (simp add: buildDeleteQuery_def field_def empty_object_clause)
  from delete_requires_where [of ?o1 JUndefined "startWorld []"] h1 e1
  have r1: "buildAndExecuteDeleteQuery ?o1 JUndefined (startWorld [])
       = (Inl (Error ''DELETE requires a WHERE clause for safety''), startWorld [])" by auto
  from delete_requires_where [of ?o2 JUndefined "startWorld []"] h2 e2
  have r2: "buildAndExecuteDeleteQuery ?o2 JUndefined (startWorld [])
       = (Inl (Error ''DELETE requires a valid WHERE clause for safety''), startWorld [])" by auto
  from h1 h2 r1 r2 show ?thesis by blast
qed

lemma prepareFields_acc:
  "prepareFields es sf ps = (sf @ fst (prepareFields es [] []), ps @ snd (prepareFields es [] []))"
proof (induction es arbitrary: sf ps)
  case Nil
  then show ?case by simp
next
  case (Cons a es)
  obtain k v where a: "a = (k, v)" by (cases a)
  obtain F P where FP: "prepareFields es [] [] = (F, P)" by (cases "prepareFields es [] []")
  have IH: "prepareFields es sf' ps' = (sf' @ F, ps' @ P)" for sf' ps'
    using Cons.IH [of sf' ps'] FP by simp
  show ?case unfolding a by (simp add: IH)
qed

lemma prepareFields_append:
  "prepareFields (xs @ ys) [] [] =
     (fst (prepareFields xs [] []) @ fst (prepareFields ys [] []),
      snd (prepareFields xs [] []) @ snd (prepareFields ys [] []))"
proof (induction xs)
  case Nil
  then show ?case by simp
next
  case (Cons a xs)
  obtain k v where a: "a = (k, v)" by (cases a)
  obtain F P where FP: "prepareFields (xs @ ys) [] [] = (F, P)"
    by (cases "prepareFields (xs @ ys) [] []")
  obtain G Q where GQ: "prepareFields xs [] [] = (G, Q)" by (cases "prepareFields xs [] []")
  have 1: "prepareFields (xs @ ys) sf ps = (sf @ F, ps @ P)" for sf ps
    using prepareFields_acc [of "xs @ ys" sf ps] FP by simp
  have 2: "prepareFields xs sf ps = (sf @ G, ps @ Q)" for sf ps
    using prepareFields_acc [of xs sf ps] GQ by simp
  from Cons.IH FP GQ have "F = G @ fst (prepareFields ys [] [])" "P = Q @ snd (prepareFields ys [] [])"
    by simp_all
  then show ?case unfolding a by (simp add: 1 2)
qed

lemma prepareFields_none_iff:
  "fst (prepareFields es [] []) = [] \<longleftrightarrow> list_all (\<lambda>(k, v). v = JUndefined) es"
proof (induction es)
  case Nil
  then show ?case by simp
next
  case (Cons a es)
  obtain k v where a: "a = (k, v)" by (cases a)
  obtain F P where FP: "prepareFields es [] [] = (F, P)" by (cases "prepareFields es [] []")
  have 1: "prepareFields es sf ps = (sf @ F, ps @ P)" for sf ps
    using prepareFields_acc [of es sf ps] FP by simp
  from Cons.IH FP show ?case unfolding a by (simp add: 1)
qed

text \<open>
  C5. For every update descriptor with a \<^verbatim>\<open>data\<close> map: no settable field is left
  after dropping the \<^verbatim>\<open>undefined\<close> values exactly when every value is
  \<^verbatim>\<open>undefined\<close> (a map with no entry included); and then the update query builder
  throws \<^verbatim>\<open>No valid fields to update\<close> and produces no statement, and the executing
  entry point throws the same error with the world as before.
\<close>

theorem update_requires_fields:
  assumes "field options ''data'' = JObj es"
  shows "(fst (prepareFields es [] []) = [] \<longleftrightarrow> list_all (\<lambda>(k, v). v = JUndefined) es)
       \<and> (list_all (\<lambda>(k, v). v = JUndefined) es \<longrightarrow>
            buildUpdateQuery options = Inl (Error ''No valid fields to update'')
            \<and> buildAndExecuteUpdateQuery options dbConfig w
                = (Inl (Error ''No valid fields to update''), w))"
proof -
  have thrown: "buildUpdateQuery options = Inl (Error ''No valid fields to update'')"
    if "list_all (\<lambda>(k, v). v = JUndefined) es"
  proof -
    from that have "fst (prepareFields es [] []) = []" by (simp add: prepareFields_none_iff)
    then obtain ps where "prepareFields es [] [] = ([], ps)"
      by (cases "prepareFields es [] []") simp
    with assms show ?thesis
      by (simp add: buildUpdateQuery_def prepareUpdateParams_def Let_def)
  qed
  then have "buildAndExecuteUpdateQuery options dbConfig w
      = (Inl (Error ''No valid fields to update''), w)"
    if "list_all (\<lambda>(k, v). v = JUndefined) es"
    using that by (simp add: buildAndExecuteUpdateQuery_def)
  with thrown prepareFields_none_iff [of es] show ?thesis by blast
qed

theorem update_requires_fields_witness:
  "field [(''table'', JStr ''users''),
          (''data'', JObj [(''name'', JUndefined), (''age'', JUndefined)])] ''data''
     = JObj [(''name'', JUndefined), (''age'', JUndefined)]
   \<and> list_all (\<lambda>(k, v). v = JUndefined) [(''name'', JUndefined), (''age'', JUndefined)]
   \<and> buildUpdateQuery
         [(''table'', JStr ''users''), (''data'', JObj [(''name'', JUndefined), (''age'', JUndefined)])]
       = Inl (Error ''No valid fields to update'')
   \<and> buildAndExecuteUpdateQuery
         [(''table'', JStr ''users''), (''data'', JObj [(''name'', JUndefined), (''age'', JUndefined)])]
         JUndefined (startWorld [])
       = (Inl (Error ''No valid fields to update''), startWorld [])"
proof -
  let ?es = "[(''name'', JUndefined), (''age'', JUndefined)]"
  let ?o = "[(''table'', JStr ''users''), (''data'', JObj ?es)]"
  have h1: "field ?o ''data'' = JObj ?es" by (simp add: field_def)
  have h2: "list_all (\<lambda>(k, v). v = JUndefined) ?es" by simp
  from update_requires_fields [OF h1, of JUndefined "startWorld []"] h1 h2
  show ?thesis by blast
qed

text \<open>
  C8. For every entry of an update \<^verbatim>\<open>data\<close> map whose value is a tagged raw
  expression (an object with a truthy \<^verbatim>\<open>__raw\<close> and the text under \<^verbatim>\<open>value\<close>), the
  SET list has \<^verbatim>\<open>col = text\<close> at the entry's place, the text as it is, and the
  parameter list is the parameters of the entries before followed by those of the
  entries after: the entry binds none. The update statement built from it carries
  exactly that SET list and those parameters.
\<close>

theorem raw_expression:
  assumes "\<not> falsy (field raw ''__raw'')" and "field raw ''value'' = JStr text"
  shows "prepareUpdateParams (JObj (before @ (col, JObj raw) # after))
       = Inr (fst (prepareFields before [] []) @ [col @ '' = '' @ text] @ fst (prepareFields after [] []),
              snd (prepareFields before [] []) @ snd (prepareFields after [] []))
     \<and> buildUpdateQuery [(''table'', table), (''data'', JObj (before @ (col, JObj raw) # after))]
       = Inr (''UPDATE '' @ toStr table @ '' SET '' @ join '', ''
                (fst (prepareFields before [] []) @ [col @ '' = '' @ text] @ fst (prepareFields after [] [])),
              snd (prepareFields before [] []) @ snd (prepareFields after [] []))"
proof -
  obtain F P where FP: "prepareFields after [] [] = (F, P)" by (cases "prepareFields after [] []")
  have 1: "prepareFields after sf ps = (sf @ F, ps @ P)" for sf ps
    using prepareFields_acc [of after sf ps] FP by simp
  have "prepareFields ((col, JObj raw) # after) [] [] = ([col @ '' = '' @ text] @ F, P)"
    using assms by (simp add: 1)
  with FP have "prepareFields (before @ (col, JObj raw) # after) [] []
      = (fst (prepareFields before [] []) @ [col @ '' = '' @ text] @ fst (prepareFields after [] []),
         snd (prepareFields before [] []) @ snd (prepareFields after [] []))"
    by (simp add: prepareFields_append [of before "(col, JObj raw) # after"])
  then show ?thesis
    by (simp add: prepareUpdateParams_def buildUpdateQuery_def field_def)
qed

theorem raw_expression_witness:
  "\<not> falsy (field [(''__raw'', JBool True), (''value'', JStr ''stock - 1'')] ''__raw'')
   \<and> field [(''__raw'', JBool True), (''value'', JStr ''stock - 1'')] ''value'' = JStr ''stock - 1''
   \<and> buildUpdateQuery [(''table'', JStr ''items''),
        (''data'', JObj [(''name'', JStr ''x''),
                         (''stock'', JObj [(''__raw'', JBool True), (''value'', JStr ''stock - 1'')]),
                         (''note'', JNull)])]
       = Inr (''UPDATE items SET name = ?, stock = stock - 1, note = NULL'', [JStr ''x''])"
proof -
  let ?raw = "[(''__raw'', JBool True), (''value'', JStr ''stock - 1'')]"
  have h1: "\<not> falsy (field ?raw ''__raw'')" by (simp add: field_def)
  have h2: "field ?raw ''value'' = JStr ''stock - 1''" by (simp add: field_def)
  from raw_expression [OF h1 h2, of "[(''name'', JStr ''x'')]" "''stock''" "[(''note'', JNull)]"
      "JStr ''items''"]
  have "buildUpdateQuery [(''table'', JStr ''items''),
        (''data'', JObj [(''name'', JStr ''x''), (''stock'', JObj ?raw), (''note'', JNull)])]
       = Inr (''UPDATE items SET name = ?, stock = stock - 1, note = NULL'', [JStr ''x''])"
    by simp
  with h1 h2 show ?thesis by blast
qed

section \<open>The entry points \<^verbatim>\<open>find\<close> and \<^verbatim>\<open>findCount\<close>\<close>

text \<open>
  C10. For every falsy query (the empty string is the one a string can be),
  \<^verbatim>\<open>find\<close> returns the empty array and \<^verbatim>\<open>findCount\<close> returns 0, and the world is
  as before: no pool was resolved, nothing was sent, nothing was logged.
\<close>

theorem find_empty_query:
  assumes "falsy query"
  shows "find_rows query params dbConfig w = (Inr (JArr []), w)
       \<and> findCount query params dbConfig w = (Inr (JNum 0), w)"
  using assms by (simp add: find_rows_def findCount_def)

theorem find_empty_query_witness:
  "falsy (JStr [])
   \<and> find_rows (JStr []) [] JUndefined (startWorld []) = (Inr (JArr []), startWorld [])
   \<and> findCount (JStr []) [] JUndefined (startWorld []) = (Inr (JNum 0), startWorld [])"
proof -
  have h: "falsy (JStr [])" by simp
  from find_empty_query [OF h, of "[]" JUndefined "startWorld []"] h show ?thesis by blast
qed

section \<open>The transaction session: connections reserved and released\<close>

lemma acquired_append [simp]: "acquired (xs @ ys) = acquired xs @ acquired ys"
  by (induction xs rule: acquired.induct) auto

lemma released_append [simp]: "released (xs @ ys) = released xs @ released ys"
  by (induction xs rule: released.induct) auto

lemma getPool_quiet: "getPool cfg w = (r, w') \<Longrightarrow> quiet this w w'"
  by (auto simp: getPool_def quiet_def driver_def logger_def Let_def
      split: if_splits outcome.splits)

lemma tx_rollback_step:
  "quiet this w (snd (tx_rollback this w)) \<or> releasing this w (snd (tx_rollback this w))"
  by (auto simp: tx_rollback_def quiet_def releasing_def driver_def logger_def tx_cleanup_def
      setConnection_def setTransactionActive_def release_def
      split: option.splits outcome.splits)

lemma tx_commit_step:
  "quiet this w (snd (tx_commit this w)) \<or> releasing this w (snd (tx_commit this w))"
  by (auto simp: tx_commit_def tx_rollback_def quiet_def releasing_def driver_def logger_def tx_cleanup_def
      setConnection_def setTransactionActive_def release_def
      split: option.splits outcome.splits)

lemma tx_executeQuery_step:
  "quiet this w (snd (tx_executeQuery this q ps op w))"
  by (auto simp: tx_executeQuery_def quiet_def driver_def logger_def
      split: option.splits outcome.splits)

lemma tx_init_step:
  "quiet this w (snd (tx_init this cfg w)) \<or> releasing this w (snd (tx_init this cfg w))
   \<or> acquiring this w (snd (tx_init this cfg w)) \<or> bouncing this w (snd (tx_init this cfg w))"
proof (cases "getPool cfg w")
  case (Pair r w1)
  from getPool_quiet [OF Pair, of this] obtain es where es: "trace w1 = trace w @ es"
    "acquired es = []" "released es = []" "nextConn w1 = nextConn w"
    "connection (sessions w1 this) = connection (sessions w this)"
    by (auto simp: quiet_def)
  show ?thesis
  proof (cases r)
    case (Inl e)
    with Pair es show ?thesis
      by (cases "connection (sessions w this)")
        (auto simp: tx_init_def quiet_def releasing_def logger_def setConnection_def release_def)
  next
    case (Inr pool)
    with Pair es show ?thesis
      by (cases "connection (sessions w this)")
        (auto simp: tx_init_def quiet_def releasing_def acquiring_def bouncing_def
          logger_def setConnection_def release_def getConnection_def driver_def
          setTransactionActive_def
          split: outcome.splits)
  qed
qed

lemma tx_init_step_idle:
  assumes "connection (sessions w this) = None"
  shows "quiet this w (snd (tx_init this cfg w))
   \<or> acquiring this w (snd (tx_init this cfg w)) \<or> bouncing this w (snd (tx_init this cfg w))"
proof -
  from assms have "\<not> releasing this w (snd (tx_init this cfg w))"
    by (simp add: releasing_def)
  with tx_init_step [of this w cfg] show ?thesis by blast
qed

lemma ledger_step:
  assumes "ledger this w0 w" and "trace w' = trace w @ es"
    and "nextConn w \<le> nextConn w'"
    and "distinct (acquired es)"
    and "set (acquired es) \<subseteq> {h. nextConn w \<le> h \<and> h < nextConn w'}"
    and "distinct (released es)"
    and "set (released es) \<subseteq> set (acquired es) \<union> set (held this w)"
    and "set (held this w') \<subseteq> (set (held this w) \<union> set (acquired es)) - set (released es)"
  shows "ledger this w0 w'"
proof -
  from assms(1) obtain evs where evs: "trace w = trace w0 @ evs"
    and da: "distinct (acquired evs)"
    and fresh: "set (acquired evs) \<subseteq> {h. h < nextConn w}"
    and dr: "distinct (released evs)"
    and sub: "set (released evs) \<subseteq> set (acquired evs)"
    and own: "set (held this w) \<subseteq> set (acquired evs) - set (released evs)"
    unfolding ledger_def by blast
  have 1: "trace w' = trace w0 @ (evs @ es)" using evs assms(2) by simp
  have disj: "set (acquired evs) \<inter> set (acquired es) = {}"
    using fresh assms(5) by fastforce
  have 2: "distinct (acquired (evs @ es))" using da assms(4) disj by simp
  have 3: "set (acquired (evs @ es)) \<subseteq> {h. h < nextConn w'}"
    using fresh assms(3,5) by fastforce
  have "set (released evs) \<inter> set (released es) = {}"
    using sub own assms(7) disj by blast
  then have 4: "distinct (released (evs @ es))" using dr assms(6) by simp
  have 5: "set (released (evs @ es)) \<subseteq> set (acquired (evs @ es))"
    using sub own assms(7) by auto
  have 6: "set (held this w') \<subseteq> set (acquired (evs @ es)) - set (released (evs @ es))"
  proof
    fix c assume c: "c \<in> set (held this w')"
    with assms(8) have c1: "c \<in> set (held this w) \<union> set (acquired es)" and c2: "c \<notin> set (released es)"
      by blast+
    from c1 own have "c \<in> set (acquired evs) \<union> set (acquired es)" by blast
    moreover have "c \<notin> set (released evs)"
    proof (cases "c \<in> set (held this w)")
      case True
      with own show ?thesis by blast
    next
      case False
      with c1 have "c \<in> set (acquired es)" by blast
      with disj have "c \<notin> set (acquired evs)" by blast
      with sub show ?thesis by blast
    qed
    ultimately show "c \<in> set (acquired (evs @ es)) - set (released (evs @ es))"
      using c2 by simp
  qed
  show ?thesis unfolding ledger_def using 1 2 3 4 5 6 by blast
qed

lemma ledger_quiet:
  assumes "ledger this w0 w" and step: "quiet this w w'"
  shows "ledger this w0 w'"
proof -
  from step obtain es where es: "trace w' = trace w @ es" and rest: "acquired es = [] \<and> released es = [] \<and> nextConn w' = nextConn w \<and> connection (sessions w' this) = connection (sessions w this)"
    unfolding quiet_def by blast
  show ?thesis
    by (rule ledger_step [OF assms(1) es]) (use rest in \<open>simp_all add: held_def\<close>)
qed

lemma ledger_releasing:
  assumes "ledger this w0 w" and step: "releasing this w w'"
  shows "ledger this w0 w'"
proof -
  from step obtain es c where es: "trace w' = trace w @ es" and rest: "connection (sessions w this) = Some c \<and> acquired es = [] \<and> released es = [c] \<and> nextConn w' = nextConn w \<and> connection (sessions w' this) = None"
    unfolding releasing_def by blast
  show ?thesis
    by (rule ledger_step [OF assms(1) es]) (use rest in \<open>simp_all add: held_def\<close>)
qed

lemma ledger_acquiring:
  assumes "ledger this w0 w" and step: "acquiring this w w'"
  shows "ledger this w0 w'"
proof -
  from step obtain es where es: "trace w' = trace w @ es" and rest: "acquired es = [nextConn w] \<and> released es = [] \<and> nextConn w' = Suc (nextConn w) \<and> connection (sessions w' this) = Some (nextConn w)"
    unfolding acquiring_def by blast
  show ?thesis
    by (rule ledger_step [OF assms(1) es]) (use rest in \<open>simp_all add: held_def\<close>)
qed

lemma ledger_bouncing:
  assumes "ledger this w0 w" and step: "bouncing this w w'"
  shows "ledger this w0 w'"
proof -
  from step obtain es where es: "trace w' = trace w @ es" and rest: "acquired es = [nextConn w] \<and> released es = [nextConn w] \<and> nextConn w' = Suc (nextConn w) \<and> connection (sessions w' this) = None"
    unfolding bouncing_def by blast
  show ?thesis
    by (rule ledger_step [OF assms(1) es]) (use rest in \<open>simp_all add: held_def\<close>)
qed

lemma ledger_call: "ledger this w0 w \<Longrightarrow> ledger this w0 (tx_call this c w)"
proof (cases c)
  case (Init cfg)
  assume "ledger this w0 w"
  with tx_init_step [of this w cfg] Init show ?thesis
    by (auto intro: ledger_quiet ledger_releasing ledger_acquiring ledger_bouncing)
next
  case (Execute q ps)
  assume "ledger this w0 w"
  with tx_executeQuery_step [of this w q ps] Execute show ?thesis
    by (auto intro: ledger_quiet)
next
  case Commit
  assume "ledger this w0 w"
  with tx_commit_step [of this w] Commit show ?thesis
    by (auto intro: ledger_quiet ledger_releasing)
next
  case Rollback
  assume "ledger this w0 w"
  with tx_rollback_step [of this w] Rollback show ?thesis
    by (auto intro: ledger_quiet ledger_releasing)
qed

lemma ledger_calls: "ledger this w0 w \<Longrightarrow> ledger this w0 (tx_calls this cs w)"
  by (induction cs arbitrary: w) (auto intro: ledger_call)

lemma ledger_start: "connection (sessions w this) = None \<Longrightarrow> ledger this w w"
  unfolding ledger_def by (rule exI [of _ "[]"]) (simp add: held_def)

lemma balanced_step:
  assumes "balanced this w0 w" and "trace w' = trace w @ es"
    and "held this w @ acquired es = released es @ held this w'"
    and "released es = [] \<or> acquired es = [] \<or> held this w = []"
  shows "balanced this w0 w'"
proof -
  from assms(1) obtain evs where evs: "trace w = trace w0 @ evs"
    and bal: "acquired evs = released evs @ held this w"
    unfolding balanced_def by blast
  have "acquired (evs @ es) = released evs @ held this w @ acquired es"
    using bal by simp
  also have "\<dots> = released evs @ released es @ held this w'"
    using assms(3) by simp
  finally have "acquired (evs @ es) = released (evs @ es) @ held this w'" by simp
  moreover have "trace w' = trace w0 @ (evs @ es)" using evs assms(2) by simp
  ultimately show ?thesis unfolding balanced_def by blast
qed

lemma balanced_quiet:
  assumes "balanced this w0 w" and step: "quiet this w w'"
  shows "balanced this w0 w'"
proof -
  from step obtain es where es: "trace w' = trace w @ es" and rest: "acquired es = [] \<and> released es = [] \<and> nextConn w' = nextConn w \<and> connection (sessions w' this) = connection (sessions w this)"
    unfolding quiet_def by blast
  show ?thesis
    by (rule balanced_step [OF assms(1) es]) (use rest in \<open>simp_all add: held_def\<close>)
qed

lemma balanced_releasing:
  assumes "balanced this w0 w" and step: "releasing this w w'"
  shows "balanced this w0 w'"
proof -
  from step obtain es c where es: "trace w' = trace w @ es" and rest: "connection (sessions w this) = Some c \<and> acquired es = [] \<and> released es = [c] \<and> nextConn w' = nextConn w \<and> connection (sessions w' this) = None"
    unfolding releasing_def by blast
  show ?thesis
    by (rule balanced_step [OF assms(1) es]) (use rest in \<open>simp_all add: held_def\<close>)
qed

lemma balanced_acquiring:
  assumes "balanced this w0 w" and "connection (sessions w this) = None" and step: "acquiring this w w'"
  shows "balanced this w0 w'"
proof -
  from step obtain es where es: "trace w' = trace w @ es" and rest: "acquired es = [nextConn w] \<and> released es = [] \<and> nextConn w' = Suc (nextConn w) \<and> connection (sessions w' this) = Some (nextConn w)"
    unfolding acquiring_def by blast
  show ?thesis
    by (rule balanced_step [OF assms(1) es]) (use rest assms(2) in \<open>simp_all add: held_def\<close>)
qed

lemma balanced_bouncing:
  assumes "balanced this w0 w" and "connection (sessions w this) = None" and step: "bouncing this w w'"
  shows "balanced this w0 w'"
proof -
  from step obtain es where es: "trace w' = trace w @ es" and rest: "acquired es = [nextConn w] \<and> released es = [nextConn w] \<and> nextConn w' = Suc (nextConn w) \<and> connection (sessions w' this) = None"
    unfolding bouncing_def by blast
  show ?thesis
    by (rule balanced_step [OF assms(1) es]) (use rest assms(2) in \<open>simp_all add: held_def\<close>)
qed

lemma balanced_calls:
  "balanced this w0 w \<Longrightarrow> initOnlyIdle this cs w \<Longrightarrow> balanced this w0 (tx_calls this cs w)"
proof (induction cs arbitrary: w)
  case Nil
  then show ?case by simp
next
  case (Cons c cs)
  show ?case
  proof (cases c)
    case (Init cfg)
    with Cons.prems have idle: "connection (sessions w this) = None"
      and rest: "initOnlyIdle this cs (tx_call this c w)" by simp_all
    from tx_init_step_idle [OF idle, of cfg] Cons.prems(1) idle Init
    have "balanced this w0 (tx_call this c w)"
      by (auto intro: balanced_quiet balanced_acquiring balanced_bouncing)
    from Cons.IH [OF this rest] show ?thesis by simp
  next
    case (Execute q ps)
    with Cons.prems have rest: "initOnlyIdle this cs (tx_call this c w)" by simp
    from tx_executeQuery_step [of this w q ps] Cons.prems(1) Execute
    have "balanced this w0 (tx_call this c w)" by (auto intro: balanced_quiet)
    from Cons.IH [OF this rest] show ?thesis by simp
  next
    case Commit
    with Cons.prems have rest: "initOnlyIdle this cs (tx_call this c w)" by simp
    from tx_commit_step [of this w] Cons.prems(1) Commit
    have "balanced this w0 (tx_call this c w)"
      by (auto intro: balanced_quiet balanced_releasing)
    from Cons.IH [OF this rest] show ?thesis by simp
  next
    case Rollback
    with Cons.prems have rest: "initOnlyIdle this cs (tx_call this c w)" by simp
    from tx_rollback_step [of this w] Cons.prems(1) Rollback
    have "balanced this w0 (tx_call this c w)"
      by (auto intro: balanced_quiet balanced_releasing)
    from Cons.IH [OF this rest] show ?thesis by simp
  qed
qed

lemma balanced_start: "connection (sessions w this) = None \<Longrightarrow> balanced this w w"
  unfolding balanced_def by (rule exI [of _ "[]"]) (simp add: held_def)

lemma since_append: "trace w' = trace w @ evs \<Longrightarrow> since w w' = evs"
  by (simp add: since_def)

lemma tx_rollback_idle:
  "connection (sessions w this) = None \<Longrightarrow> tx_rollback this w = (Inr (), w)"
  by (simp add: tx_rollback_def)

lemma tx_commit_idle:
  "connection (sessions w this) = None \<Longrightarrow>
     tx_commit this w = (Inl (Error ''No active transaction to commit''), w)"
  by (simp add: tx_commit_def)

lemma tx_rollback_clears: "connection (sessions (snd (tx_rollback this w)) this) = None"
  by (auto simp: tx_rollback_def driver_def logger_def tx_cleanup_def
      setConnection_def setTransactionActive_def release_def
      split: option.splits outcome.splits)

lemma tx_commit_clears:
  "transactionActive (sessions w this) \<Longrightarrow> connection (sessions (snd (tx_commit this w)) this) = None"
  by (auto simp: tx_commit_def tx_rollback_def driver_def logger_def tx_cleanup_def
      setConnection_def setTransactionActive_def release_def
      split: option.splits outcome.splits)

lemmas tx_defs = tx_init_def tx_commit_def tx_rollback_def tx_executeQuery_def tx_cleanup_def
  setConnection_def setTransactionActive_def release_def driver_def getConnection_def
  getPool_def getPoolKey_def logger_def nextAnswer_def startWorld_def newSession_def
  field_def decimal.simps digit_def since_def held_def Let_def

text \<open>
  C2 (as amended). A session that holds no connection is given any list of
  \<^verbatim>\<open>init\<close>, \<^verbatim>\<open>execute\<close>, \<^verbatim>\<open>commit\<close> and \<^verbatim>\<open>rollback\<close> calls, the driver
  answering each operation with success or failure as it likes (the script of the
  world is arbitrary). Then the connections reserved during the calls are distinct, no
  connection is released twice, and only reserved ones are released. If moreover
  \<^verbatim>\<open>init\<close> is never invoked while the session holds a connection, every reserved
  connection has been released exactly once but the one the session still holds, so
  that the pool's count of connections in use is up by one while the session holds a
  connection and back at its value from before once it holds none.
  \<^verbatim>\<open>rollback\<close> on a session without a connection (a new session, or after
  \<^verbatim>\<open>commit\<close> or \<^verbatim>\<open>rollback\<close>) returns with the world unchanged, and
  \<^verbatim>\<open>commit\<close> there throws with the world unchanged: nothing is reserved or
  released again. After \<^verbatim>\<open>rollback\<close>, and after \<^verbatim>\<open>commit\<close> of an active
  session, the session holds no connection.
\<close>

theorem release_once:
  assumes "connection (sessions w this) = None"
  shows "distinct (acquired (since w (tx_calls this cs w)))
       \<and> distinct (released (since w (tx_calls this cs w)))
       \<and> set (released (since w (tx_calls this cs w))) \<subseteq> set (acquired (since w (tx_calls this cs w)))
       \<and> (initOnlyIdle this cs w \<longrightarrow>
            acquired (since w (tx_calls this cs w))
              = released (since w (tx_calls this cs w)) @ held this (tx_calls this cs w)
            \<and> inUse (since w (tx_calls this cs w)) = int (length (held this (tx_calls this cs w))))
       \<and> tx_rollback this w = (Inr (), w)
       \<and> tx_commit this w = (Inl (Error ''No active transaction to commit''), w)
       \<and> (\<forall>w0. connection (sessions (snd (tx_rollback this w0)) this) = None)
       \<and> (\<forall>w0. transactionActive (sessions w0 this) \<longrightarrow>
             connection (sessions (snd (tx_commit this w0)) this) = None)"
proof -
  let ?w' = "tx_calls this cs w"
  from ledger_calls [OF ledger_start [OF assms], of cs]
  obtain evs where evs: "trace ?w' = trace w @ evs" "distinct (acquired evs)"
    "distinct (released evs)" "set (released evs) \<subseteq> set (acquired evs)"
    unfolding ledger_def by blast
  have bal: "acquired (since w ?w') = released (since w ?w') @ held this ?w'"
    if "initOnlyIdle this cs w"
  proof -
    from balanced_calls [OF balanced_start [OF assms] that]
    obtain evs' where "trace ?w' = trace w @ evs'" "acquired evs' = released evs' @ held this ?w'"
      unfolding balanced_def by blast
    then show ?thesis by (simp add: since_append)
  qed
  have use: "inUse (since w ?w') = int (length (held this ?w'))" if "initOnlyIdle this cs w"
    unfolding inUse_def by (subst bal [OF that]) simp
  from evs have "distinct (acquired (since w ?w'))" "distinct (released (since w ?w'))"
    "set (released (since w ?w')) \<subseteq> set (acquired (since w ?w'))"
    by (simp_all add: since_append)
  with bal use tx_rollback_idle [OF assms] tx_commit_idle [OF assms]
    tx_rollback_clears [of this] tx_commit_clears [of _ this]
  show ?thesis by blast
qed

theorem release_once_witness:
  "connection (sessions (startWorld [Ok JUndefined, Ok JUndefined, Ok JUndefined, Ok (JArr []),
        Fail (Error ''deadlock''), Fail (Error ''gone'')]) 0) = None
   \<and> initOnlyIdle 0 [Init JUndefined, Execute (JStr ''SELECT 1'') [], Commit, Rollback, Commit]
        (startWorld [Ok JUndefined, Ok JUndefined, Ok JUndefined, Ok (JArr []),
           Fail (Error ''deadlock''), Fail (Error ''gone'')])
   \<and> acquired (since (startWorld [Ok JUndefined, Ok JUndefined, Ok JUndefined, Ok (JArr []),
           Fail (Error ''deadlock''), Fail (Error ''gone'')])
        (tx_calls 0 [Init JUndefined, Execute (JStr ''SELECT 1'') [], Commit, Rollback, Commit]
          (startWorld [Ok JUndefined, Ok JUndefined, Ok JUndefined, Ok (JArr []),
             Fail (Error ''deadlock''), Fail (Error ''gone'')]))) = [0]
   \<and> released (since (startWorld [Ok JUndefined, Ok JUndefined, Ok JUndefined, Ok (JArr []),
           Fail (Error ''deadlock''), Fail (Error ''gone'')])
        (tx_calls 0 [Init JUndefined, Execute (JStr ''SELECT 1'') [], Commit, Rollback, Commit]
          (startWorld [Ok JUndefined, Ok JUndefined, Ok JUndefined, Ok (JArr []),
             Fail (Error ''deadlock''), Fail (Error ''gone'')]))) = [0]
   \<and> inUse (since (startWorld [Ok JUndefined, Ok JUndefined, Ok JUndefined, Ok (JArr []),
           Fail (Error ''deadlock''), Fail (Error ''gone'')])
        (tx_calls 0 [Init JUndefined, Execute (JStr ''SELECT 1'') [], Commit, Rollback, Commit]
          (startWorld [Ok JUndefined, Ok JUndefined, Ok JUndefined, Ok (JArr []),
             Fail (Error ''deadlock''), Fail (Error ''gone'')]))) = 0
   \<and> transactionActive (sessions (tx_call 0 (Init JUndefined) (startWorld [])) 0)
   \<and> connection (sessions
         (snd (tx_commit 0 (tx_call 0 (Init JUndefined) (startWorld [])))) 0) = None"
proof -
  let ?w = "startWorld [Ok JUndefined, Ok JUndefined, Ok JUndefined, Ok (JArr []),
        Fail (Error ''deadlock''), Fail (Error ''gone'')]"
  let ?cs = "[Init JUndefined, Execute (JStr ''SELECT 1'') [], Commit, Rollback, Commit]"
  let ?v = "tx_call 0 (Init JUndefined) (startWorld [])"
  have idle: "connection (sessions ?w 0) = None" by (simp add: tx_defs)
  have guarded: "initOnlyIdle 0 ?cs ?w" by (simp add: tx_defs)
  have rel: "released (since ?w (tx_calls 0 ?cs ?w)) = [0]" by (simp add: tx_defs)
  have free: "held 0 (tx_calls 0 ?cs ?w) = []" by (simp add: tx_defs)
  have active: "transactionActive (sessions ?v 0)" by (simp add: tx_defs)
  note inst = release_once [OF idle, of ?cs]
  from inst guarded
  have "acquired (since ?w (tx_calls 0 ?cs ?w))
      = released (since ?w (tx_calls 0 ?cs ?w)) @ held 0 (tx_calls 0 ?cs ?w)" by blast
  then have acq: "acquired (since ?w (tx_calls 0 ?cs ?w)) = [0]"
    by (simp only: rel free append_Nil2)
  from inst guarded
  have "inUse (since ?w (tx_calls 0 ?cs ?w)) = int (length (held 0 (tx_calls 0 ?cs ?w)))"
    by blast
  then have use: "inUse (since ?w (tx_calls 0 ?cs ?w)) = 0" by (simp only: free) simp
  from inst active have "connection (sessions (snd (tx_commit 0 ?v)) 0) = None" by blast
  with idle guarded acq rel use active show ?thesis by blast
qed

text \<open>
  Stated of every list of calls, C2 does not hold: \<^verbatim>\<open>init\<close> has no guard, and a
  second \<^verbatim>\<open>init\<close> on an active session overwrites the connection it holds. After
  \<^verbatim>\<open>init\<close>, \<^verbatim>\<open>init\<close>, \<^verbatim>\<open>commit\<close>, all succeeding, connections 0 and 1 were
  reserved, only 1 was released, and the session holds none: connection 0 stays in
  use for good.
\<close>

theorem release_once_counterexample:
  "connection (sessions (startWorld []) 0) = None
   \<and> acquired (since (startWorld []) (tx_calls 0 [Init JUndefined, Init JUndefined, Commit] (startWorld []))) = [0, 1]
   \<and> released (since (startWorld []) (tx_calls 0 [Init JUndefined, Init JUndefined, Commit] (startWorld []))) = [1]
   \<and> held 0 (tx_calls 0 [Init JUndefined, Init JUndefined, Commit] (startWorld [])) = []
   \<and> inUse (since (startWorld []) (tx_calls 0 [Init JUndefined, Init JUndefined, Commit] (startWorld []))) = 1"
  by (simp add: tx_defs inUse_def)

section \<open>Commit on an active session\<close>

lemma tx_commit_active:
  assumes "connection (sessions w this) = Some c" and "transactionActive (sessions w this)"
  shows "fst (tx_commit this w) = (case nextAnswer (script w) of Ok u \<Rightarrow> Inr () | Fail e \<Rightarrow> Inl e)"
    and "connection (sessions (snd (tx_commit this w)) this) = None"
    and "\<not> transactionActive (sessions (snd (tx_commit this w)) this)"
    and "since w (snd (tx_commit this w)) =
          (case nextAnswer (script w) of
             Ok u \<Rightarrow> [CommitTx c, Release c]
           | Fail e \<Rightarrow> [CommitTx c, RollbackTx c, Release c])"
    and "nextAnswer (script w) = Fail e \<Longrightarrow>
          logged (snd (tx_commit this w)) = logged w @
            [(Err, [Txt ''Commit failed, rolling back...'', Thrown e]),
             (case nextAnswer (tl (script w)) of
                Ok u \<Rightarrow> (Info, [Txt ''Transaction rolled back''])
              | Fail e' \<Rightarrow> (Err, [Txt ''Rollback failed:'', Thrown e']))]"
  using assms
  by (auto simp: tx_commit_def tx_rollback_def driver_def logger_def tx_cleanup_def
      setConnection_def setTransactionActive_def release_def since_def
      split: outcome.splits)

text \<open>
  C3. \<^verbatim>\<open>commit\<close> on an active session (it holds connection \<open>c\<close> and
  \<^verbatim>\<open>transactionActive\<close> is true), whatever the driver answers: the connection is
  released exactly once, the session ends with no connection and
  \<^verbatim>\<open>transactionActive\<close> false, and \<^verbatim>\<open>commit\<close> returns exactly when the driver's
  commit succeeded. When the driver's commit fails with \<open>e\<close>, a rollback is asked of
  the same connection after the commit and before the release, \<^verbatim>\<open>commit\<close> throws
  \<open>e\<close> itself whether that rollback succeeds or fails, and a failure of the rollback
  is logged at error level and not thrown.
\<close>

theorem commit_failure:
  assumes "connection (sessions w this) = Some c" and "transactionActive (sessions w this)"
  shows "\<exists>w'. tx_commit this w
           = ((case nextAnswer (script w) of Ok u \<Rightarrow> Inr () | Fail e \<Rightarrow> Inl e), w')
     \<and> connection (sessions w' this) = None \<and> \<not> transactionActive (sessions w' this)
     \<and> released (since w w') = [c]
     \<and> (\<forall>e. nextAnswer (script w) = Fail e \<longrightarrow>
          since w w' = [CommitTx c, RollbackTx c, Release c]
          \<and> logged w' = logged w @
            [(Err, [Txt ''Commit failed, rolling back...'', Thrown e]),
             (case nextAnswer (tl (script w)) of
                Ok u \<Rightarrow> (Info, [Txt ''Transaction rolled back''])
              | Fail e' \<Rightarrow> (Err, [Txt ''Rollback failed:'', Thrown e']))])"
proof -
  note facts = tx_commit_active [OF assms]
  have "released (since w (snd (tx_commit this w))) = [c]"
    by (simp add: facts(4) split: outcome.splits)
  moreover have "tx_commit this w
      = ((case nextAnswer (script w) of Ok u \<Rightarrow> Inr () | Fail e \<Rightarrow> Inl e), snd (tx_commit this w))"
    using facts(1) by (simp add: prod_eq_iff)
  ultimately show ?thesis using facts(2,3,4,5) by (intro exI [of _ "snd (tx_commit this w)"]) auto
qed

theorem commit_failure_witness:
  "connection (sessions (tx_call 0 (Init JUndefined) (startWorld [Ok JUndefined, Ok JUndefined,
        Ok JUndefined, Fail (Error ''deadlock''), Fail (Error ''gone'')])) 0) = Some 0
   \<and> transactionActive (sessions (tx_call 0 (Init JUndefined) (startWorld [Ok JUndefined,
        Ok JUndefined, Ok JUndefined, Fail (Error ''deadlock''), Fail (Error ''gone'')])) 0)
   \<and> (\<exists>w'. tx_commit 0 (tx_call 0 (Init JUndefined) (startWorld [Ok JUndefined, Ok JUndefined,
              Ok JUndefined, Fail (Error ''deadlock''), Fail (Error ''gone'')]))
            = (Inl (Error ''deadlock''), w')
        \<and> connection (sessions w' 0) = None \<and> \<not> transactionActive (sessions w' 0)
        \<and> since (tx_call 0 (Init JUndefined) (startWorld [Ok JUndefined, Ok JUndefined,
              Ok JUndefined, Fail (Error ''deadlock''), Fail (Error ''gone'')])) w'
            = [CommitTx 0, RollbackTx 0, Release 0]
        \<and> logged w' = logged (tx_call 0 (Init JUndefined) (startWorld [Ok JUndefined,
              Ok JUndefined, Ok JUndefined, Fail (Error ''deadlock''), Fail (Error ''gone'')]))
            @ [(Err, [Txt ''Commit failed, rolling back...'', Thrown (Error ''deadlock'')]),
               (Err, [Txt ''Rollback failed:'', Thrown (Error ''gone'')])])"
proof -
  let ?w = "tx_call 0 (Init JUndefined) (startWorld [Ok JUndefined, Ok JUndefined,
        Ok JUndefined, Fail (Error ''deadlock''), Fail (Error ''gone'')])"
  have c: "connection (sessions ?w 0) = Some 0" by (simp add: tx_defs)
  have a: "transactionActive (sessions ?w 0)" by (simp add: tx_defs)
  have n: "nextAnswer (script ?w) = Fail (Error ''deadlock'')" by (simp add: tx_defs)
  have n': "nextAnswer (tl (script ?w)) = Fail (Error ''gone'')" by (simp add: tx_defs)
  from commit_failure [OF c a] obtain w'
    where "tx_commit 0 ?w
           = ((case nextAnswer (script ?w) of Ok u \<Rightarrow> Inr () | Fail e \<Rightarrow> Inl e), w')"
      and "connection (sessions w' 0) = None" and "\<not> transactionActive (sessions w' 0)"
      and "\<forall>e. nextAnswer (script ?w) = Fail e \<longrightarrow>
          since ?w w' = [CommitTx 0, RollbackTx 0, Release 0]
          \<and> logged w' = logged ?w @
            [(Err, [Txt ''Commit failed, rolling back...'', Thrown e]),
             (case nextAnswer (tl (script ?w)) of
                Ok u \<Rightarrow> (Info, [Txt ''Transaction rolled back''])
              | Fail e' \<Rightarrow> (Err, [Txt ''Rollback failed:'', Thrown e']))]"
    by blast
  then have "tx_commit 0 ?w = (Inl (Error ''deadlock''), w')"
    and "connection (sessions w' 0) = None" and "\<not> transactionActive (sessions w' 0)"
    and "since ?w w' = [CommitTx 0, RollbackTx 0, Release 0]"
    and "logged w' = logged ?w @
            [(Err, [Txt ''Commit failed, rolling back...'', Thrown (Error ''deadlock'')]),
             (Err, [Txt ''Rollback failed:'', Thrown (Error ''gone'')])]"
    using n n' by simp_all
  with c a show ?thesis by blast
qed

section \<open>The registry and terminated sessions\<close>

lemma tx_commit_instance: "transactionInstance (snd (tx_commit this w)) = transactionInstance w"
  by (auto simp: tx_commit_def tx_rollback_def driver_def logger_def tx_cleanup_def
      setConnection_def setTransactionActive_def release_def
      split: option.splits outcome.splits)

lemma tx_rollback_instance: "transactionInstance (snd (tx_rollback this w)) = transactionInstance w"
  by (auto simp: tx_rollback_def driver_def logger_def tx_cleanup_def
      setConnection_def setTransactionActive_def release_def
      split: option.splits outcome.splits)

lemma tx_commit_inactive:
  "transactionActive (sessions w this) \<longrightarrow> connection (sessions w this) \<noteq> None \<Longrightarrow>
     \<not> transactionActive (sessions (snd (tx_commit this w)) this)"
  by (auto simp: tx_commit_def tx_rollback_def driver_def logger_def tx_cleanup_def
      setConnection_def setTransactionActive_def release_def
      split: option.splits outcome.splits)

lemma tx_rollback_inactive:
  "transactionActive (sessions w this) \<longrightarrow> connection (sessions w this) \<noteq> None \<Longrightarrow>
     \<not> transactionActive (sessions (snd (tx_rollback this w)) this)"
  by (auto simp: tx_rollback_def driver_def logger_def tx_cleanup_def
      setConnection_def setTransactionActive_def release_def
      split: option.splits outcome.splits)

lemma getPool_sessions: "sessions (snd (getPool cfg w)) = sessions w"
  by (auto simp: getPool_def driver_def logger_def Let_def split: outcome.splits)

lemma life_cycle_call:
  assumes "transactionActive (sessions w this) \<longrightarrow> connection (sessions w this) \<noteq> None"
    and "\<And>cfg. c = Init cfg \<Longrightarrow> connection (sessions w this) = None"
  shows "transactionActive (sessions (tx_call this c w) this)
     \<longrightarrow> connection (sessions (tx_call this c w) this) \<noteq> None"
proof (cases c)
  case (Init cfg)
  with assms have idle: "connection (sessions w this) = None"
    and quiet: "\<not> transactionActive (sessions w this)" by auto
  obtain r w1 where g: "getPool cfg w = (r, w1)" by (cases "getPool cfg w")
  with getPool_sessions [of cfg w] have "sessions w1 = sessions w" by simp
  with idle quiet g Init show ?thesis
    by (auto simp: tx_init_def getConnection_def driver_def logger_def setConnection_def
        setTransactionActive_def release_def split: sum.splits outcome.splits)
next
  case (Execute q ps)
  with assms(1) show ?thesis
    by (auto simp: tx_executeQuery_def driver_def logger_def split: option.splits outcome.splits)
next
  case Commit
  with tx_commit_inactive [OF assms(1)] show ?thesis by simp
next
  case Rollback
  with tx_rollback_inactive [OF assms(1)] show ?thesis by simp
qed

lemma life_cycle:
  "transactionActive (sessions w this) \<longrightarrow> connection (sessions w this) \<noteq> None \<Longrightarrow>
   initOnlyIdle this cs w \<Longrightarrow>
   transactionActive (sessions (tx_calls this cs w) this)
     \<longrightarrow> connection (sessions (tx_calls this cs w) this) \<noteq> None"
proof (induction cs arbitrary: w)
  case Nil
  then show ?case by simp
next
  case (Cons c cs)
  have guard: "connection (sessions w this) = None" if "c = Init cfg" for cfg
    using Cons.prems(2) that by simp
  have rest: "initOnlyIdle this cs (tx_call this c w)"
    using Cons.prems(2) by (cases c) simp_all
  from Cons.IH [OF life_cycle_call [OF Cons.prems(1) guard] rest] show ?case by simp
qed

text \<open>
  C9 (as amended). \<^verbatim>\<open>hasActiveTransaction\<close> is true exactly when a session is
  registered in the slot and that session's \<^verbatim>\<open>transactionActive\<close> is true. A
  registered session that is not marked active without holding a connection, and
  that is committed or rolled back and stays registered, is not reported active
  afterwards. A new session is never marked active without holding a connection as
  long as \<^verbatim>\<open>init\<close> is not invoked on it while it holds a connection.
\<close>

theorem hasActiveTransaction_registered_active:
  "hasActiveTransaction w = (\<exists>r. transactionInstance w = Some r \<and> transactionActive (sessions w r))
   \<and> (transactionInstance w = Some r
        \<and> (transactionActive (sessions w r) \<longrightarrow> connection (sessions w r) \<noteq> None)
      \<longrightarrow> \<not> hasActiveTransaction (snd (tx_commit r w))
          \<and> \<not> hasActiveTransaction (snd (tx_rollback r w)))
   \<and> (sessions w0 r = newSession \<and> initOnlyIdle r cs w0
      \<longrightarrow> (transactionActive (sessions (tx_calls r cs w0) r)
            \<longrightarrow> connection (sessions (tx_calls r cs w0) r) \<noteq> None))"
proof -
  have "hasActiveTransaction w = (\<exists>r. transactionInstance w = Some r \<and> transactionActive (sessions w r))"
    by (simp add: hasActiveTransaction_def split: option.splits)
  moreover have "\<not> hasActiveTransaction (snd (tx_commit r w))"
    if "transactionInstance w = Some r"
      and "transactionActive (sessions w r) \<longrightarrow> connection (sessions w r) \<noteq> None"
    using that tx_commit_inactive [of w r] tx_commit_instance [of r w]
    by (simp add: hasActiveTransaction_def)
  moreover have "\<not> hasActiveTransaction (snd (tx_rollback r w))"
    if "transactionInstance w = Some r"
      and "transactionActive (sessions w r) \<longrightarrow> connection (sessions w r) \<noteq> None"
    using that tx_rollback_inactive [of w r] tx_rollback_instance [of r w]
    by (simp add: hasActiveTransaction_def)
  moreover have "transactionActive (sessions (tx_calls r cs w0) r)
            \<longrightarrow> connection (sessions (tx_calls r cs w0) r) \<noteq> None"
    if "sessions w0 r = newSession" and "initOnlyIdle r cs w0"
  proof -
    from that(1) have "transactionActive (sessions w0 r) \<longrightarrow> connection (sessions w0 r) \<noteq> None"
      by (simp add: newSession_def)
    from life_cycle [OF this that(2)] show ?thesis .
  qed
  ultimately show ?thesis by blast
qed

theorem hasActiveTransaction_registered_active_witness:
  "sessions (startWorld []) 0 = newSession
   \<and> initOnlyIdle 0 [Init JUndefined] (startWorld [])
   \<and> transactionInstance (setInstance 0 (tx_calls 0 [Init JUndefined] (startWorld []))) = Some 0
   \<and> connection (sessions (setInstance 0 (tx_calls 0 [Init JUndefined] (startWorld []))) 0) = Some 0
   \<and> hasActiveTransaction (setInstance 0 (tx_calls 0 [Init JUndefined] (startWorld [])))
   \<and> \<not> hasActiveTransaction
         (snd (tx_commit 0 (setInstance 0 (tx_calls 0 [Init JUndefined] (startWorld [])))))
   \<and> \<not> hasActiveTransaction
         (snd (tx_rollback 0 (setInstance 0 (tx_calls 0 [Init JUndefined] (startWorld [])))))"
proof -
  let ?v = "tx_calls 0 [Init JUndefined] (startWorld [])"
  let ?w = "setInstance 0 ?v"
  have n: "sessions (startWorld []) 0 = newSession" by (simp add: startWorld_def)
  have g: "initOnlyIdle 0 [Init JUndefined] (startWorld [])"
    by (simp add: startWorld_def newSession_def)
  have i: "transactionInstance ?w = Some 0" by (simp add: setInstance_def)
  have c: "connection (sessions ?w 0) = Some 0" by (simp add: setInstance_def tx_defs)
  have a: "hasActiveTransaction ?w" by (simp add: hasActiveTransaction_def setInstance_def tx_defs)
  have s: "sessions ?w = sessions ?v" by (simp add: setInstance_def)
  note inst = hasActiveTransaction_registered_active [of ?w 0 "startWorld []" "[Init JUndefined]"]
  from inst n g have "transactionActive (sessions ?v 0) \<longrightarrow> connection (sessions ?v 0) \<noteq> None"
    by blast
  then have "transactionActive (sessions ?w 0) \<longrightarrow> connection (sessions ?w 0) \<noteq> None"
    by (simp only: s)
  with inst i have "\<not> hasActiveTransaction (snd (tx_commit 0 ?w))"
    and "\<not> hasActiveTransaction (snd (tx_rollback 0 ?w))" by blast+
  with n g i c a show ?thesis by blast
qed

text \<open>
  Stated of every registered session, C9 does not hold: \<^verbatim>\<open>init\<close> has no guard, and
  its \<^verbatim>\<open>catch\<close> block gives up the connection without resetting
  \<^verbatim>\<open>transactionActive\<close>. After an \<^verbatim>\<open>init\<close> that succeeds and a second \<^verbatim>\<open>init\<close> to
  which the pool refuses a connection, the session holds no connection and is still
  marked active; \<^verbatim>\<open>rollback\<close> then returns at its first line without reaching
  \<^verbatim>\<open>_cleanup\<close>, \<^verbatim>\<open>commit\<close> throws at its guard, and the session is reported active
  after either.
\<close>

theorem hasActiveTransaction_registered_active_counterexample:
  "transactionInstance
     (tx_calls 0 [Init JUndefined, Init JUndefined]
        (setInstance 0 (startWorld [Ok JUndefined, Ok JUndefined, Ok JUndefined, Fail (Error ''refused'')])))
     = Some 0
   \<and> connection (sessions
       (tx_calls 0 [Init JUndefined, Init JUndefined]
          (setInstance 0 (startWorld [Ok JUndefined, Ok JUndefined, Ok JUndefined, Fail (Error ''refused'')]))) 0)
     = None
   \<and> fst (tx_rollback 0
       (tx_calls 0 [Init JUndefined, Init JUndefined]
          (setInstance 0 (startWorld [Ok JUndefined, Ok JUndefined, Ok JUndefined, Fail (Error ''refused'')]))))
     = Inr ()
   \<and> hasActiveTransaction (snd (tx_rollback 0
       (tx_calls 0 [Init JUndefined, Init JUndefined]
          (setInstance 0 (startWorld [Ok JUndefined, Ok JUndefined, Ok JUndefined, Fail (Error ''refused'')])))))
   \<and> fst (tx_commit 0
       (tx_calls 0 [Init JUndefined, Init JUndefined]
          (setInstance 0 (startWorld [Ok JUndefined, Ok JUndefined, Ok JUndefined, Fail (Error ''refused'')]))))
     = Inl (Error ''No active transaction to commit'')
   \<and> hasActiveTransaction (snd (tx_commit 0
       (tx_calls 0 [Init JUndefined, Init JUndefined]
          (setInstance 0 (startWorld [Ok JUndefined, Ok JUndefined, Ok JUndefined, Fail (Error ''refused'')])))))
   \<and> released
       (trace (tx_calls 0 [Init JUndefined, Init JUndefined]
          (setInstance 0 (startWorld [Ok JUndefined, Ok JUndefined, Ok JUndefined, Fail (Error ''refused'')]))))
     = [0]"
  by (simp add: tx_defs setInstance_def hasActiveTransaction_def)

end
